theory Spec2Isabelle
  imports Main "HOL-Library.AList"
begin

section \<open>A WebSocket signalling relay: rooms, clients and message routing\<close>

text \<open>
  The server keeps a registry of named rooms; every room maps client names to clients;
  every client owns a connection and a buffered outbound channel. The definitions below
  embed the Go source of the revision in \<^verbatim>\<open>src/unnamed/part_000\<close>, lines 1 to 272: the
  one whose join loop keeps reading until a join arrives and whose dispatcher is a
  \<^verbatim>\<open>switch\<close>. It is the revision that has all the mechanisms the room and routing logic
  is described with (buffered queues, non-blocking sends, eviction of a duplicate name,
  the leave message). \<^verbatim>\<open>GetOrCreateRoom\<close> is the same text in \<^verbatim>\<open>src/main.go\<close>, lines 44
  to 58; the rest of \<^verbatim>\<open>src/main.go\<close> is an earlier revision with unbuffered blocking sends
  and without user list, eviction and leave message.

  Go pointers are addresses into explicit heaps: a \<^verbatim>\<open>*Room\<close> is an index into the list
  \<open>room_heap\<close>, a \<^verbatim>\<open>*Client\<close> is a key of the map \<open>client_heap\<close>. A Go map that the
  code iterates is an association list, in the order of the iteration; the properties
  proved hold for every order.

  Every function is what one goroutine does, run on its own from a given state. The
  outcome \<open>Returned\<close> carries its result; \<open>Blocked\<close> says that it waits in the state
  reached, for a lock another \<^verbatim>\<open>Lock\<close> holds or for room in a full channel, and goes no
  further unless some other goroutine changes that; \<open>Panicked\<close> is a run-time panic.
  The drain loop \<^verbatim>\<open>writeMessages\<close>, which takes messages out of a client's channel and
  writes them to the socket, is a goroutine of its own and not modelled: the buffer of a
  channel is what has been enqueued and not yet taken out.
\<close>

subsection \<open>Data\<close>

type_synonym bytes = string
type_synonym addr = nat

text \<open>What \<^verbatim>\<open>encoding/json\<close> stores in an \<^verbatim>\<open>interface{}\<close>. The server only ever asks
  whether a value is a string, so the float64 of a number carries no payload here.\<close>

datatype jval =
    JNull
  | JBool bool
  | JNumber
  | JString string
  | JArray "jval list"
  | JObject "(string \<times> jval) list"

text \<open>The two library functions the server calls, taken as parameters:
  \<^verbatim>\<open>json.Unmarshal(message, &data)\<close> with \<^verbatim>\<open>data map[string]interface{}\<close> (\<open>None\<close> is
  the error) and \<^verbatim>\<open>json.Marshal\<close> of a \<^verbatim>\<open>map[string]interface{}\<close> literal.\<close>

record json_lib =
  Unmarshal :: "bytes \<Rightarrow> (string \<rightharpoonup> jval) option"
  Marshal :: "(string \<times> jval) list \<Rightarrow> bytes"

text \<open>\<^verbatim>\<open>v, _ := data[key].(string)\<close>: the string, or the empty string when the key is
  missing or holds something else.\<close>

definition asString :: "jval option \<Rightarrow> string" where
  "asString v = (case v of Some (JString x) \<Rightarrow> x | _ \<Rightarrow> [])"

text \<open>A buffered \<^verbatim>\<open>chan []byte\<close>: pending messages in order, capacity, closed flag.\<close>

record chan =
  buf :: "bytes list"
  cap :: nat
  closed :: bool

text \<open>A \<^verbatim>\<open>*websocket.Conn\<close>, as far as the server changes it.\<close>

record Conn =
  isClosed :: bool

record Client =
  Name :: string
  Socket :: Conn
  Send :: chan
  Room :: "addr option"

record Room =
  Name :: string
  Clients :: "(string \<times> addr) list"
  Mutex :: bool

record Server =
  Rooms :: "(string \<times> addr) list"
  Mutex :: bool

record state =
  server :: Server
  room_heap :: "Room list"
  client_heap :: "addr \<rightharpoonup> Client"

datatype 'a outcome = Returned 'a | Blocked | Panicked

text \<open>\<^verbatim>\<open>var server = Server{Rooms: make(map[string]*Room)}\<close>\<close>

definition initial :: state where
  "initial = \<lparr>server = \<lparr>Rooms = [], Mutex = False\<rparr>, room_heap = [], client_heap = Map.empty\<rparr>"

subsection \<open>Sequencing, \<^verbatim>\<open>defer\<close>, mutexes\<close>

definition andThen ::
  "(state \<Rightarrow> 'a outcome \<times> state) \<Rightarrow> ('a \<Rightarrow> state \<Rightarrow> 'b outcome \<times> state)
    \<Rightarrow> state \<Rightarrow> 'b outcome \<times> state" where
  "andThen m f s =
     (case m s of
        (Returned x, s') \<Rightarrow> f x s'
      | (Blocked, s') \<Rightarrow> (Blocked, s')
      | (Panicked, s') \<Rightarrow> (Panicked, s'))"

text \<open>\<^verbatim>\<open>defer d\<close> followed by \<open>body\<close>: \<open>d\<close> runs when the body returns and also when it
  panics; it does not run when the body has not come back.\<close>

definition deferring ::
  "(state \<Rightarrow> unit outcome \<times> state) \<Rightarrow> (state \<Rightarrow> 'a outcome \<times> state)
    \<Rightarrow> state \<Rightarrow> 'a outcome \<times> state" where
  "deferring d body s =
     (case body s of
        (Blocked, s') \<Rightarrow> (Blocked, s')
      | (out, s') \<Rightarrow>
          (case d s' of
             (Returned _, s'') \<Rightarrow> (out, s'')
           | (Blocked, s'') \<Rightarrow> (Blocked, s'')
           | (Panicked, s'') \<Rightarrow> (Panicked, s'')))"

text \<open>\<^verbatim>\<open>sync.Mutex\<close> is not re-entrant: \<^verbatim>\<open>Lock\<close> on a held mutex waits for an
  \<^verbatim>\<open>Unlock\<close>, whoever holds it; \<^verbatim>\<open>Unlock\<close> of a free mutex is a fatal error.\<close>

definition lockServer :: "state \<Rightarrow> unit outcome \<times> state" where
  "lockServer s =
     (if Server.Mutex (server s) then (Blocked, s)
      else (Returned (), s\<lparr>server := (server s)\<lparr>Server.Mutex := True\<rparr>\<rparr>))"

definition unlockServer :: "state \<Rightarrow> unit outcome \<times> state" where
  "unlockServer s =
     (if Server.Mutex (server s)
      then (Returned (), s\<lparr>server := (server s)\<lparr>Server.Mutex := False\<rparr>\<rparr>)
      else (Panicked, s))"

definition roomAt :: "state \<Rightarrow> addr \<Rightarrow> Room option" where
  "roomAt s r = (if r < length (room_heap s) then Some (room_heap s ! r) else None)"

definition setRoom :: "addr \<Rightarrow> Room \<Rightarrow> state \<Rightarrow> state" where
  "setRoom r R s = s\<lparr>room_heap := (room_heap s)[r := R]\<rparr>"

definition lockRoom :: "addr \<Rightarrow> state \<Rightarrow> unit outcome \<times> state" where
  "lockRoom r s =
     (case roomAt s r of
        None \<Rightarrow> (Panicked, s)
      | Some R \<Rightarrow>
          if Room.Mutex R then (Blocked, s)
          else (Returned (), setRoom r (R\<lparr>Room.Mutex := True\<rparr>) s))"

definition unlockRoom :: "addr \<Rightarrow> state \<Rightarrow> unit outcome \<times> state" where
  "unlockRoom r s =
     (case roomAt s r of
        None \<Rightarrow> (Panicked, s)
      | Some R \<Rightarrow>
          if Room.Mutex R then (Returned (), setRoom r (R\<lparr>Room.Mutex := False\<rparr>) s)
          else (Panicked, s))"

subsection \<open>The registry\<close>

text \<open>\<^verbatim>\<open>func (s *Server) GetOrCreateRoom(roomName string) *Room\<close>. A new Room is
  allocated at the end of the heap.\<close>

definition GetOrCreateRoom :: "string \<Rightarrow> state \<Rightarrow> addr outcome \<times> state" where
  "GetOrCreateRoom roomName =
     andThen lockServer (\<lambda>_.
       deferring unlockServer (\<lambda>s.
         case map_of (Rooms (server s)) roomName of
           Some room \<Rightarrow> (Returned room, s)
         | None \<Rightarrow>
             (let room = length (room_heap s) in
              (Returned room,
               s\<lparr>room_heap := room_heap s @ [\<lparr>Room.Name = roomName, Clients = [], Mutex = False\<rparr>],
                 server := (server s)\<lparr>Rooms := AList.update roomName room (Rooms (server s))\<rparr>\<rparr>))))"

text \<open>One Room object per name: the names of the allocated rooms are pairwise different,
  every allocated room is registered under its own name, and every registered pointer is
  an allocated room of that name.\<close>

definition one_room_per_name :: "state \<Rightarrow> bool" where
  "one_room_per_name s \<longleftrightarrow>
     distinct (map Room.Name (room_heap s)) \<and>
     list_all (\<lambda>r. map_of (Rooms (server s)) (Room.Name (room_heap s ! r)) = Some r)
       [0 ..< length (room_heap s)] \<and>
     list_all (\<lambda>(n, r). r < length (room_heap s) \<and> Room.Name (room_heap s ! r) = n)
       (Rooms (server s))"

subsection \<open>Channels and sockets\<close>

text \<open>\<^verbatim>\<open>select { case client.Send <- message: ... default: ... }\<close>: the send is taken when
  the buffer has room, the default branch otherwise (the result says which); a send on a
  closed channel panics.\<close>

definition trySend :: "addr \<Rightarrow> bytes \<Rightarrow> state \<Rightarrow> bool outcome \<times> state" where
  "trySend c message s =
     (case client_heap s c of
        None \<Rightarrow> (Panicked, s)
      | Some cl \<Rightarrow>
          if closed (Send cl) then (Panicked, s)
          else if length (buf (Send cl)) < cap (Send cl)
          then (Returned True,
                s\<lparr>client_heap := (client_heap s)
                    (c \<mapsto> cl\<lparr>Send := (Send cl)\<lparr>buf := buf (Send cl) @ [message]\<rparr>\<rparr>)\<rparr>)
          else (Returned False, s))"

text \<open>\<^verbatim>\<open>client.Send <- message\<close>: waits while the buffer is full.\<close>

definition send :: "addr \<Rightarrow> bytes \<Rightarrow> state \<Rightarrow> unit outcome \<times> state" where
  "send c message s =
     (case client_heap s c of
        None \<Rightarrow> (Panicked, s)
      | Some cl \<Rightarrow>
          if closed (Send cl) then (Panicked, s)
          else if length (buf (Send cl)) < cap (Send cl)
          then (Returned (),
                s\<lparr>client_heap := (client_heap s)
                    (c \<mapsto> cl\<lparr>Send := (Send cl)\<lparr>buf := buf (Send cl) @ [message]\<rparr>\<rparr>)\<rparr>)
          else (Blocked, s))"

text \<open>\<^verbatim>\<open>close(c.Send)\<close>: closing a closed channel panics.\<close>

definition closeSend :: "addr \<Rightarrow> state \<Rightarrow> unit outcome \<times> state" where
  "closeSend c s =
     (case client_heap s c of
        None \<Rightarrow> (Panicked, s)
      | Some cl \<Rightarrow>
          if closed (Send cl) then (Panicked, s)
          else (Returned (),
                s\<lparr>client_heap := (client_heap s)(c \<mapsto> cl\<lparr>Send := (Send cl)\<lparr>closed := True\<rparr>\<rparr>)\<rparr>))"

text \<open>\<^verbatim>\<open>c.Socket.Close()\<close>\<close>

definition closeSocket :: "addr \<Rightarrow> state \<Rightarrow> unit outcome \<times> state" where
  "closeSocket c s =
     (case client_heap s c of
        None \<Rightarrow> (Panicked, s)
      | Some cl \<Rightarrow>
          (Returned (),
           s\<lparr>client_heap := (client_heap s)(c \<mapsto> cl\<lparr>Socket := (Socket cl)\<lparr>isClosed := True\<rparr>\<rparr>)\<rparr>))"

subsection \<open>Rooms\<close>

text \<open>Reading and assigning \<^verbatim>\<open>r.Clients\<close> through the pointer \<open>r\<close>.\<close>

definition getClients :: "addr \<Rightarrow> state \<Rightarrow> (string \<times> addr) list outcome \<times> state" where
  "getClients r s =
     (case roomAt s r of None \<Rightarrow> (Panicked, s) | Some R \<Rightarrow> (Returned (Clients R), s))"

definition modifyClients ::
  "addr \<Rightarrow> ((string \<times> addr) list \<Rightarrow> (string \<times> addr) list) \<Rightarrow> state \<Rightarrow> unit outcome \<times> state" where
  "modifyClients r f s =
     (case roomAt s r of
        None \<Rightarrow> (Panicked, s)
      | Some R \<Rightarrow> (Returned (), setRoom r (R\<lparr>Clients := f (Clients R)\<rparr>) s))"

text \<open>The \<^verbatim>\<open>for name, client := range r.Clients\<close> loop of \<^verbatim>\<open>Broadcast\<close>, over the
  entries in the order the iteration visits them.\<close>

fun sendEach :: "bytes \<Rightarrow> string \<Rightarrow> (string \<times> addr) list \<Rightarrow> state \<Rightarrow> unit outcome \<times> state" where
  "sendEach message exclude [] s = (Returned (), s)"
| "sendEach message exclude ((name, client) # rest) s =
     (if name \<noteq> exclude
      then (case trySend client message s of
              (Returned _, s') \<Rightarrow> sendEach message exclude rest s'
            | (Blocked, s') \<Rightarrow> (Blocked, s')
            | (Panicked, s') \<Rightarrow> (Panicked, s'))
      else sendEach message exclude rest s)"

text \<open>\<^verbatim>\<open>func (r *Room) Broadcast(message []byte, exclude string)\<close>\<close>

definition Broadcast :: "addr \<Rightarrow> bytes \<Rightarrow> string \<Rightarrow> state \<Rightarrow> unit outcome \<times> state" where
  "Broadcast r message exclude =
     andThen (lockRoom r) (\<lambda>_.
       deferring (unlockRoom r)
         (andThen (getClients r) (\<lambda>members. sendEach message exclude members)))"

text \<open>\<^verbatim>\<open>func (r *Room) RemoveClient(clientName string)\<close>\<close>

definition RemoveClient :: "json_lib \<Rightarrow> addr \<Rightarrow> string \<Rightarrow> state \<Rightarrow> unit outcome \<times> state" where
  "RemoveClient J r clientName =
     andThen (lockRoom r) (\<lambda>_.
       deferring (unlockRoom r)
         (andThen (modifyClients r (AList.delete clientName)) (\<lambda>_.
            Broadcast r
              (Marshal J [(''type'', JString ''leave''), (''name'', JString clientName)])
              [])))"

subsection \<open>The join handshake\<close>

definition modifyClient :: "addr \<Rightarrow> (Client \<Rightarrow> Client) \<Rightarrow> state \<Rightarrow> unit outcome \<times> state" where
  "modifyClient c f s =
     (case client_heap s c of
        None \<Rightarrow> (Panicked, s)
      | Some cl \<Rightarrow> (Returned (), s\<lparr>client_heap := (client_heap s)(c \<mapsto> f cl)\<rparr>))"

text \<open>Lines 146 to 150: a client already registered under the name has its socket closed
  and its entry deleted.\<close>

definition evictExisting :: "addr \<Rightarrow> string \<Rightarrow> state \<Rightarrow> unit outcome \<times> state" where
  "evictExisting room name =
     andThen (getClients room) (\<lambda>members.
       case map_of members name of
         Some existingClient \<Rightarrow>
           andThen (closeSocket existingClient) (\<lambda>_. modifyClients room (AList.delete name))
       | None \<Rightarrow> (\<lambda>s. (Returned (), s)))"

text \<open>Lines 142 to 185: everything the join branch does with the pointer \<open>room\<close> that
  \<^verbatim>\<open>GetOrCreateRoom\<close> returned; \<^verbatim>\<open>client.Name\<close> is \<open>name\<close> here.\<close>

definition enterRoom :: "json_lib \<Rightarrow> addr \<Rightarrow> string \<Rightarrow> addr \<Rightarrow> state \<Rightarrow> unit outcome \<times> state" where
  "enterRoom J client name room =
     andThen (modifyClient client (\<lambda>cl. cl\<lparr>Room := Some room\<rparr>)) (\<lambda>_.
     andThen (lockRoom room) (\<lambda>_.
     andThen (evictExisting room name) (\<lambda>_.
     andThen (modifyClients room (AList.update name client)) (\<lambda>_.
     andThen (unlockRoom room) (\<lambda>_.
     andThen (lockRoom room) (\<lambda>_.
     andThen (getClients room) (\<lambda>members.
     andThen (unlockRoom room) (\<lambda>_.
     andThen (send client
                (Marshal J [(''type'', JString ''user-list''),
                            (''users'', JArray (map JString
                                (filter (\<lambda>n. n \<noteq> name) (map fst members))))])) (\<lambda>_.
     Broadcast room
       (Marshal J [(''type'', JString ''new-user''), (''name'', JString name)]) name)))))))))"

text \<open>Lines 138 to 185, the body of the join branch once \<open>name\<close> and \<open>roomName\<close> are
  known to be non-empty.\<close>

definition handleJoin :: "json_lib \<Rightarrow> addr \<Rightarrow> string \<Rightarrow> string \<Rightarrow> state \<Rightarrow> unit outcome \<times> state" where
  "handleJoin J client name roomName =
     andThen (modifyClient client (\<lambda>cl. cl\<lparr>Client.Name := name\<rparr>)) (\<lambda>_.
     andThen (GetOrCreateRoom roomName) (enterRoom J client name))"

text \<open>The \<^verbatim>\<open>for\<close> loop of \<^verbatim>\<open>handleWebSocket\<close> (lines 117 to 191). \<open>frames\<close> are the
  messages the peer sends before its connection fails: \<^verbatim>\<open>ReadMessage\<close> returns them one
  by one and then an error, and it returns an error at once on a socket closed locally.
  The result is \<open>None\<close> when the handler returns without a join, and \<open>Some rest\<close> when
  the client was admitted and \<^verbatim>\<open>go client.readMessages()\<close> was started with the frames
  \<open>rest\<close> still to come.\<close>

fun joinLoop ::
  "json_lib \<Rightarrow> addr \<Rightarrow> bytes list \<Rightarrow> state \<Rightarrow> bytes list option outcome \<times> state" where
  "joinLoop J client [] s = andThen (closeSocket client) (\<lambda>_ s'. (Returned None, s')) s"
| "joinLoop J client (message # rest) s =
     (case client_heap s client of
        None \<Rightarrow> (Panicked, s)
      | Some cl \<Rightarrow>
          if isClosed (Socket cl)
          then andThen (closeSocket client) (\<lambda>_ s'. (Returned None, s')) s
          else (case Unmarshal J message of
                  None \<Rightarrow> joinLoop J client rest s
                | Some data \<Rightarrow>
                    if asString (data ''type'') = ''join''
                    then (let name = asString (data ''name'');
                              roomName = asString (data ''room'')
                          in if name = [] \<or> roomName = []
                             then joinLoop J client rest s
                             else andThen (handleJoin J client name roomName)
                                    (\<lambda>_ s'. (Returned (Some rest), s')) s)
                    else joinLoop J client rest s))"

text \<open>\<^verbatim>\<open>func handleWebSocket(w, r)\<close> after a successful upgrade (a failed upgrade returns
  before anything is touched). The new Client object lives at the address \<open>socket\<close>,
  one per accepted connection.\<close>

definition newClient :: Client where
  "newClient = \<lparr>Client.Name = [], Socket = \<lparr>isClosed = False\<rparr>,
                Send = \<lparr>buf = [], cap = 256, closed = False\<rparr>, Room = None\<rparr>"

definition handleWebSocket ::
  "json_lib \<Rightarrow> addr \<Rightarrow> bytes list \<Rightarrow> state \<Rightarrow> bytes list option outcome \<times> state" where
  "handleWebSocket J socket frames s =
     joinLoop J socket frames (s\<lparr>client_heap := (client_heap s)(socket \<mapsto> newClient)\<rparr>)"

subsection \<open>Steady state: the read loop\<close>

text \<open>Lines 228 to 240: look the target up under the room lock, then try to send.\<close>

definition forward :: "addr \<Rightarrow> string \<Rightarrow> bytes \<Rightarrow> state \<Rightarrow> unit outcome \<times> state" where
  "forward c target message s =
     (case client_heap s c of
        None \<Rightarrow> (Panicked, s)
      | Some cl \<Rightarrow>
          (case Room cl of
             None \<Rightarrow> (Panicked, s)
           | Some room \<Rightarrow>
               andThen (lockRoom room) (\<lambda>_.
               andThen (getClients room) (\<lambda>members.
               andThen (unlockRoom room) (\<lambda>_.
                 case map_of members target of
                   Some targetClient \<Rightarrow>
                     andThen (trySend targetClient message) (\<lambda>_ s'. (Returned (), s'))
                 | None \<Rightarrow> (\<lambda>s'. (Returned (), s'))))) s))"

text \<open>The \<^verbatim>\<open>for\<close> loop of \<^verbatim>\<open>readMessages\<close> (lines 203 to 249); it returns when the loop
  is left by \<^verbatim>\<open>break\<close> or \<^verbatim>\<open>return\<close>.\<close>

fun readLoop :: "json_lib \<Rightarrow> addr \<Rightarrow> bytes list \<Rightarrow> state \<Rightarrow> unit outcome \<times> state" where
  "readLoop J c [] s = (Returned (), s)"
| "readLoop J c (message # rest) s =
     (case client_heap s c of
        None \<Rightarrow> (Panicked, s)
      | Some cl \<Rightarrow>
          if isClosed (Socket cl) then (Returned (), s)
          else (case Unmarshal J message of
                  None \<Rightarrow> readLoop J c rest s
                | Some data \<Rightarrow>
                    (let messageType = asString (data ''type'') in
                     if messageType = ''offer'' \<or> messageType = ''answer''
                        \<or> messageType = ''candidate''
                     then (let target = asString (data ''target'') in
                           if target = [] then readLoop J c rest s
                           else (case forward c target message s of
                                   (Returned _, s') \<Rightarrow> readLoop J c rest s'
                                 | (Blocked, s') \<Rightarrow> (Blocked, s')
                                 | (Panicked, s') \<Rightarrow> (Panicked, s')))
                     else if messageType = ''leave'' then (Returned (), s)
                     else readLoop J c rest s)))"

text \<open>The deferred function of \<^verbatim>\<open>readMessages\<close> (lines 196 to 201).\<close>

definition cleanup :: "json_lib \<Rightarrow> addr \<Rightarrow> state \<Rightarrow> unit outcome \<times> state" where
  "cleanup J c s =
     (case client_heap s c of
        None \<Rightarrow> (Panicked, s)
      | Some cl \<Rightarrow>
          (case Room cl of
             None \<Rightarrow> (Panicked, s)
           | Some room \<Rightarrow>
               andThen (RemoveClient J room (Client.Name cl)) (\<lambda>_.
               andThen (closeSocket c) (\<lambda>_. closeSend c)) s))"

text \<open>\<^verbatim>\<open>func (c *Client) readMessages()\<close>\<close>

definition readMessages :: "json_lib \<Rightarrow> addr \<Rightarrow> bytes list \<Rightarrow> state \<Rightarrow> unit outcome \<times> state" where
  "readMessages J c frames = deferring (cleanup J c) (readLoop J c frames)"

subsection \<open>Auxiliary notions for stating properties\<close>

text \<open>What a non-blocking send of \<open>m\<close> leaves of a client with an open channel: the
  message is appended when the buffer has room and the client is unchanged otherwise.\<close>

definition offer :: "bytes \<Rightarrow> Client \<Rightarrow> Client" where
  "offer m cl = cl\<lparr>Send := (Send cl)\<lparr>buf := (if length (buf (Send cl)) < cap (Send cl) then buf (Send cl) @ [m] else buf (Send cl))\<rparr>\<rparr>"

text \<open>The member map of a room is well formed in a state: names are the keys of a map,
  no client is registered under two names, and every member is an allocated client whose
  channel is open.\<close>

definition members_ok :: "state \<Rightarrow> Room \<Rightarrow> bool" where
  "members_ok s R \<longleftrightarrow>
     distinct (map fst (Clients R)) \<and> distinct (map snd (Clients R)) \<and>
     list_all (\<lambda>(name, c). case client_heap s c of None \<Rightarrow> False | Some cl \<Rightarrow> \<not> closed (Send cl))
       (Clients R)"

text \<open>A client after \<^verbatim>\<open>Socket.Close()\<close>.\<close>

definition closing :: "Client \<Rightarrow> Client" where
  "closing cl = cl\<lparr>Socket := (Socket cl)\<lparr>isClosed := True\<rparr>\<rparr>"

text \<open>The join loop acts on a message exactly when it decodes, its type is the string
  ``join'', and its name and room are non-empty strings.\<close>

definition valid_join :: "json_lib \<Rightarrow> bytes \<Rightarrow> bool" where
  "valid_join J message =
     (case Unmarshal J message of
        None \<Rightarrow> False
      | Some data \<Rightarrow>
          asString (data ''type'') = ''join'' \<and> asString (data ''name'') \<noteq> [] \<and>
          asString (data ''room'') \<noteq> [])"

text \<open>A state between two operations: no lock is held, every registered pointer is an
  allocated room, and every room's member map is well formed.\<close>

definition quiescent :: "state \<Rightarrow> bool" where
  "quiescent s \<longleftrightarrow>
     \<not> Server.Mutex (server s) \<and>
     list_all (\<lambda>(n, r). r < length (room_heap s)) (Rooms (server s)) \<and>
     list_all (\<lambda>R. \<not> Room.Mutex R \<and> members_ok s R) (room_heap s)"

text \<open>The state after the client object \<open>cl\<close> at address \<open>c\<close> has entered, under
  \<open>name\<close>, the room \<open>R\<close> at address \<open>room\<close>: the room maps \<open>name\<close> to \<open>c\<close>
  in place of any earlier entry; \<open>c\<close> points to the room and has the user list appended to
  its queue; a client evicted from the name has its socket closed; every other member is
  offered the new-user message.\<close>

definition joined :: "json_lib \<Rightarrow> addr \<Rightarrow> Client \<Rightarrow> string \<Rightarrow> addr \<Rightarrow> Room \<Rightarrow> state \<Rightarrow> state" where
  "joined J c cl name room R s =
     (setRoom room (R\<lparr>Clients := AList.update name c (AList.delete name (Clients R))\<rparr>) s)
       \<lparr>client_heap := (\<lambda>a.
          if a = c
          then Some (cl\<lparr>Room := Some room,
                  Send := (Send cl)\<lparr>buf := buf (Send cl) @
                    [Marshal J [(''type'', JString ''user-list''),
                       (''users'', JArray (map JString
                          (filter (\<lambda>n. n \<noteq> name) (map fst (Clients R)))))]]\<rparr>\<rparr>)
          else if map_of (Clients R) name = Some a
          then map_option closing (client_heap s a)
          else if a \<in> snd ` {(n, x) \<in> set (Clients R). n \<noteq> name}
          then map_option
                 (offer (Marshal J [(''type'', JString ''new-user''), (''name'', JString name)]))
                 (client_heap s a)
          else client_heap s a)\<rparr>"

text \<open>The member map of the room registered under a name, empty when there is none.\<close>

definition members_before :: "state \<Rightarrow> string \<Rightarrow> (string \<times> addr) list" where
  "members_before s roomName =
     (case map_of (Rooms (server s)) roomName of
        None \<Rightarrow> []
      | Some r \<Rightarrow> Clients (room_heap s ! r))"

text \<open>Two states have the same registry and the same room names at the same addresses;
  an operation keeps them, or keeps at least the one-Room-per-name property.\<close>

definition same_registry :: "state \<Rightarrow> state \<Rightarrow> bool" where
  "same_registry s s' \<longleftrightarrow>
     Rooms (server s') = Rooms (server s) \<and>
     map Room.Name (room_heap s') = map Room.Name (room_heap s)"

definition keeps_registry :: "(state \<Rightarrow> 'a outcome \<times> state) \<Rightarrow> bool" where
  "keeps_registry m \<longleftrightarrow> (\<forall>s. same_registry s (snd (m s)))"

definition keeps_one_room_per_name :: "(state \<Rightarrow> 'a outcome \<times> state) \<Rightarrow> bool" where
  "keeps_one_room_per_name m \<longleftrightarrow> (\<forall>s. one_room_per_name s \<longrightarrow> one_room_per_name (snd (m s)))"

subsection \<open>Example states\<close>

text \<open>A room ``lobby'' with three members; the queue of B holds 256 pending messages.\<close>

definition demo_client :: "string \<Rightarrow> bytes list \<Rightarrow> Client" where
  "demo_client name pending =
     \<lparr>Client.Name = name, Socket = \<lparr>isClosed = False\<rparr>,
      Send = \<lparr>buf = pending, cap = 256, closed = False\<rparr>, Room = Some 0\<rparr>"

definition demo_room :: Room where
  "demo_room = \<lparr>Room.Name = ''lobby'', Clients = [(''A'', 1), (''B'', 2), (''C'', 3)], Mutex = False\<rparr>"

definition demo_state :: state where
  "demo_state =
     \<lparr>server = \<lparr>Rooms = [(''lobby'', 0)], Mutex = False\<rparr>,
      room_heap = [demo_room],
      client_heap = [1 \<mapsto> demo_client ''A'' [],
                     2 \<mapsto> demo_client ''B'' (replicate 256 ''x''),
                     3 \<mapsto> demo_client ''C'' []]\<rparr>"

text \<open>Some messages, and a stand-in for the JSON library that decodes exactly these and
  encodes field by field; it is used in examples only.\<close>

definition join_D :: bytes where
  "join_D = ''{\"type\":\"join\",\"name\":\"D\",\"room\":\"lobby\"}''"

definition join_A :: bytes where
  "join_A = ''{\"type\":\"join\",\"name\":\"A\",\"room\":\"lobby\"}''"

definition join_B :: bytes where
  "join_B = ''{\"type\":\"join\",\"name\":\"B\",\"room\":\"lobby\"}''"

definition join_unnamed :: bytes where
  "join_unnamed = ''{\"type\":\"join\",\"name\":\"\",\"room\":\"lobby\"}''"

definition offer_to_A :: bytes where
  "offer_to_A = ''{\"type\":\"offer\",\"target\":\"A\",\"sdp\":\"v=0\"}''"

definition offer_to_B :: bytes where
  "offer_to_B = ''{\"type\":\"offer\",\"target\":\"B\",\"sdp\":\"v=0\"}''"

definition offer_to_Z :: bytes where
  "offer_to_Z = ''{\"type\":\"offer\",\"target\":\"Z\",\"sdp\":\"v=0\"}''"

definition leave_msg :: bytes where
  "leave_msg = ''{\"type\":\"leave\"}''"

definition ping_msg :: bytes where
  "ping_msg = ''{\"type\":\"ping\"}''"

definition demo_messages :: "(bytes \<times> (string \<times> jval) list) list" where
  "demo_messages =
     [(join_D, [(''type'', JString ''join''), (''name'', JString ''D''), (''room'', JString ''lobby'')]),
      (join_A, [(''type'', JString ''join''), (''name'', JString ''A''), (''room'', JString ''lobby'')]),
      (join_B, [(''type'', JString ''join''), (''name'', JString ''B''), (''room'', JString ''lobby'')]),
      (join_unnamed, [(''type'', JString ''join''), (''name'', JString []), (''room'', JString ''lobby'')]),
      (offer_to_A, [(''type'', JString ''offer''), (''target'', JString ''A''), (''sdp'', JString ''v=0'')]),
      (offer_to_B, [(''type'', JString ''offer''), (''target'', JString ''B''), (''sdp'', JString ''v=0'')]),
      (offer_to_Z, [(''type'', JString ''offer''), (''target'', JString ''Z''), (''sdp'', JString ''v=0'')]),
      (leave_msg, [(''type'', JString ''leave'')]),
      (ping_msg, [(''type'', JString ''ping'')])]"

fun demo_show :: "jval \<Rightarrow> string" where
  "demo_show (JString x) = x"
| "demo_show (JArray xs) = concat (map (\<lambda>v. case v of JString x \<Rightarrow> x @ '','' | _ \<Rightarrow> ''?,'') xs)"
| "demo_show _ = ''?''"

definition demo_json :: json_lib where
  "demo_json =
     \<lparr>Unmarshal = (\<lambda>message. map_option map_of (map_of demo_messages message)),
      Marshal = (\<lambda>fs. concat (map (\<lambda>(k, v). k @ ''='' @ demo_show v @ '';'') fs))\<rparr>"

text \<open>The states of a run from the initial state: A joins the room ``lobby'', then B
  joins it, then A sends an offer to B, then the connection of B ends.\<close>

definition scene_1 :: state where
  "scene_1 =
     \<lparr>server = \<lparr>Rooms = [(''lobby'', 0)], Mutex = False\<rparr>,
      room_heap = [\<lparr>Room.Name = ''lobby'', Clients = [(''A'', 1)], Mutex = False\<rparr>],
      client_heap = [1 \<mapsto> demo_client ''A'' [''type=user-list;users=;'']]\<rparr>"

definition scene_2 :: state where
  "scene_2 =
     \<lparr>server = \<lparr>Rooms = [(''lobby'', 0)], Mutex = False\<rparr>,
      room_heap = [\<lparr>Room.Name = ''lobby'', Clients = [(''A'', 1), (''B'', 2)], Mutex = False\<rparr>],
      client_heap = [1 \<mapsto> demo_client ''A'' [''type=user-list;users=;'', ''type=new-user;name=B;''],
                     2 \<mapsto> demo_client ''B'' [''type=user-list;users=A,;'']]\<rparr>"

definition scene_3 :: state where
  "scene_3 =
     \<lparr>server = \<lparr>Rooms = [(''lobby'', 0)], Mutex = False\<rparr>,
      room_heap = [\<lparr>Room.Name = ''lobby'', Clients = [(''A'', 1), (''B'', 2)], Mutex = False\<rparr>],
      client_heap = [1 \<mapsto> demo_client ''A'' [''type=user-list;users=;'', ''type=new-user;name=B;''],
                     2 \<mapsto> demo_client ''B'' [''type=user-list;users=A,;'', offer_to_B]]\<rparr>"

definition scene_4 :: state where
  "scene_4 =
     \<lparr>server = \<lparr>Rooms = [(''lobby'', 0)], Mutex = False\<rparr>,
      room_heap = [\<lparr>Room.Name = ''lobby'', Clients = [(''A'', 1)], Mutex = True\<rparr>],
      client_heap = [1 \<mapsto> demo_client ''A'' [''type=user-list;users=;'', ''type=new-user;name=B;''],
                     2 \<mapsto> demo_client ''B'' [''type=user-list;users=A,;'', offer_to_B]]\<rparr>"

section \<open>Properties\<close>

subsection \<open>Association lists as Go maps\<close>

lemma update_absent: "map_of al k = None \<Longrightarrow> AList.update k v al = al @ [(k, v)]"
  by (induction al) (auto split: if_splits)

subsection \<open>The registry\<close>

lemma GetOrCreateRoom_found:
  "\<not> Server.Mutex (server s) \<Longrightarrow> map_of (Rooms (server s)) n = Some r
    \<Longrightarrow> GetOrCreateRoom n s = (Returned r, s)"
  by (simp add: GetOrCreateRoom_def andThen_def deferring_def lockServer_def unlockServer_def)

lemma GetOrCreateRoom_new:
  "\<not> Server.Mutex (server s) \<Longrightarrow> map_of (Rooms (server s)) n = None
    \<Longrightarrow> GetOrCreateRoom n s =
       (Returned (length (room_heap s)),
        s\<lparr>room_heap := room_heap s @ [\<lparr>Room.Name = n, Clients = [], Mutex = False\<rparr>],
          server := (server s)\<lparr>Rooms := AList.update n (length (room_heap s)) (Rooms (server s))\<rparr>\<rparr>)"
  by (simp add: GetOrCreateRoom_def andThen_def deferring_def lockServer_def unlockServer_def
      Let_def)

lemma one_room_per_name_alloc:
  assumes inv: "one_room_per_name s" and absent: "map_of (Rooms (server s)) n = None"
  shows "one_room_per_name
     (s\<lparr>room_heap := room_heap s @ [\<lparr>Room.Name = n, Clients = [], Mutex = False\<rparr>],
        server := (server s)\<lparr>Rooms := AList.update n (length (room_heap s)) (Rooms (server s))\<rparr>\<rparr>)"
proof -
  let ?H = "room_heap s" and ?R = "Rooms (server s)"
  let ?new = "\<lparr>Room.Name = n, Clients = [], Mutex = False\<rparr>"
  from inv have d: "distinct (map Room.Name ?H)"
    and reg: "\<And>r. r < length ?H \<Longrightarrow> map_of ?R (Room.Name (?H ! r)) = Some r"
    and val: "\<And>k r. (k, r) \<in> set ?R \<Longrightarrow> r < length ?H \<and> Room.Name (?H ! r) = k"
    by (auto simp: one_room_per_name_def list_all_iff)
  have fresh: "n \<notin> Room.Name ` set ?H"
  proof
    assume "n \<in> Room.Name ` set ?H"
    then obtain r where "r < length ?H" "Room.Name (?H ! r) = n"
      by (auto simp: in_set_conv_nth)
    with reg[of r] absent show False by simp
  qed
  have a: "distinct (map Room.Name (?H @ [?new]))"
    using d fresh by simp
  have b: "map_of (AList.update n (length ?H) ?R) (Room.Name ((?H @ [?new]) ! r)) = Some r"
    if "r < Suc (length ?H)" for r
  proof (cases "r < length ?H")
    case True
    then show ?thesis using reg[of r] absent by (auto simp: nth_append update_conv')
  next
    case False
    with that have "r = length ?H" by simp
    then show ?thesis by (simp add: update_conv')
  qed
  have c: "r < Suc (length ?H) \<and> Room.Name ((?H @ [?new]) ! r) = k"
    if "(k, r) \<in> set (AList.update n (length ?H) ?R)" for k r
    using that val[of k r] by (auto simp: nth_append update_absent[OF absent])
  show ?thesis
    unfolding one_room_per_name_def list_all_iff
    using a b c by (auto simp del: upt_Suc)
qed

lemma one_room_per_name_initial: "one_room_per_name initial"
  by (simp add: one_room_per_name_def initial_def)

subsection \<open>Heaps, locks and channels\<close>

lemma roomAt_setRoom [simp]:
  "roomAt (setRoom r R s) r' = (if r' = r then (if r < length (room_heap s) then Some R else None) else roomAt s r')"
  by (simp add: roomAt_def setRoom_def)

lemma setRoom_fields [simp]:
  "client_heap (setRoom r R s) = client_heap s" "server (setRoom r R s) = server s"
  "length (room_heap (setRoom r R s)) = length (room_heap s)"
  by (simp_all add: setRoom_def)

lemma setRoom_setRoom [simp]: "setRoom r R (setRoom r R' s) = setRoom r R s"
  by (simp add: setRoom_def)

lemma setRoom_same: "roomAt s r = Some R \<Longrightarrow> setRoom r R s = s"
  by (auto simp: roomAt_def setRoom_def split: if_splits)

lemma roomAt_heap_update [simp]: "roomAt (s\<lparr>client_heap := h\<rparr>) r = roomAt s r"
  by (simp add: roomAt_def)

lemma setRoom_heap_update: "setRoom r R (s\<lparr>client_heap := h\<rparr>) = (setRoom r R s)\<lparr>client_heap := h\<rparr>"
  by (simp add: setRoom_def)

lemma heap_update_same: "client_heap s c = Some cl \<Longrightarrow> s\<lparr>client_heap := (client_heap s)(c \<mapsto> cl)\<rparr> = s"
  by (simp add: fun_upd_idem)

lemma trySend_open:
  "client_heap s c = Some cl \<Longrightarrow> \<not> closed (Send cl) \<Longrightarrow>
   trySend c m s = (Returned (length (buf (Send cl)) < cap (Send cl)), s\<lparr>client_heap := (client_heap s)(c \<mapsto> offer m cl)\<rparr>)"
  by (auto simp: trySend_def offer_def heap_update_same)

lemma sendEach_effect:
  assumes "distinct (map snd members)"
    and "\<forall>(n, c) \<in> set members. \<exists>cl. client_heap s c = Some cl \<and> \<not> closed (Send cl)"
  shows "sendEach m ex members s =
     (Returned (), s\<lparr>client_heap := (\<lambda>a. if a \<in> snd ` {(n, c) \<in> set members. n \<noteq> ex}
         then map_option (offer m) (client_heap s a) else client_heap s a)\<rparr>)"
  using assms
proof (induction members arbitrary: s)
  case Nil
  then show ?case by simp
next
  case (Cons p members)
  obtain n c where p: "p = (n, c)" by (cases p)
  from Cons.prems p obtain cl where cl: "client_heap s c = Some cl" "\<not> closed (Send cl)"
    by auto
  from Cons.prems p have notin: "c \<notin> snd ` set members" and d: "distinct (map snd members)"
    by auto
  show ?case
  proof (cases "n = ex")
    case True
    have "sendEach m ex (p # members) s = sendEach m ex members s"
      using p True by simp
    also have "\<dots> = (Returned (), s\<lparr>client_heap := (\<lambda>a. if a \<in> snd ` {(n, c) \<in> set members. n \<noteq> ex}
         then map_option (offer m) (client_heap s a) else client_heap s a)\<rparr>)"
      using Cons.IH[OF d] Cons.prems by simp
    also have "(\<lambda>a. if a \<in> snd ` {(n, c) \<in> set members. n \<noteq> ex}
         then map_option (offer m) (client_heap s a) else client_heap s a) =
       (\<lambda>a. if a \<in> snd ` {(n, c) \<in> set (p # members). n \<noteq> ex}
         then map_option (offer m) (client_heap s a) else client_heap s a)"
      using p True by (auto simp: fun_eq_iff)
    finally show ?thesis .
  next
    case False
    let ?s1 = "s\<lparr>client_heap := (client_heap s)(c \<mapsto> offer m cl)\<rparr>"
    have pre: "\<forall>(n, c) \<in> set members. \<exists>cl. client_heap ?s1 c = Some cl \<and> \<not> closed (Send cl)"
      using Cons.prems(2) notin cl by (auto simp: offer_def)
    have "sendEach m ex (p # members) s = sendEach m ex members ?s1"
      using p False cl by (simp add: trySend_open)
    also have "\<dots> = (Returned (), ?s1\<lparr>client_heap := (\<lambda>a. if a \<in> snd ` {(n, c) \<in> set members. n \<noteq> ex}
         then map_option (offer m) (client_heap ?s1 a) else client_heap ?s1 a)\<rparr>)"
      by (rule Cons.IH[OF d pre])
    also have "(\<lambda>a. if a \<in> snd ` {(n, c) \<in> set members. n \<noteq> ex}
         then map_option (offer m) (client_heap ?s1 a) else client_heap ?s1 a) =
       (\<lambda>a. if a \<in> snd ` {(n, c) \<in> set (p # members). n \<noteq> ex}
         then map_option (offer m) (client_heap s a) else client_heap s a)"
      using p False notin cl by (auto simp: fun_eq_iff image_iff)
    finally show ?thesis by simp
  qed
qed

lemma lockRoom_free:
  "roomAt s r = Some R \<Longrightarrow> \<not> Room.Mutex R \<Longrightarrow> lockRoom r s = (Returned (), setRoom r (R\<lparr>Room.Mutex := True\<rparr>) s)"
  by (simp add: lockRoom_def)

lemma lockRoom_held:
  "roomAt s r = Some R \<Longrightarrow> Room.Mutex R \<Longrightarrow> lockRoom r s = (Blocked, s)"
  by (simp add: lockRoom_def)

lemma unlockRoom_held:
  "roomAt s r = Some R \<Longrightarrow> Room.Mutex R \<Longrightarrow> unlockRoom r s = (Returned (), setRoom r (R\<lparr>Room.Mutex := False\<rparr>) s)"
  by (simp add: unlockRoom_def)

lemma roomAt_valid: "roomAt s r = Some R \<Longrightarrow> r < length (room_heap s)"
  by (simp add: roomAt_def split: if_splits)

lemma members_ok_open:
  "members_ok s R \<Longrightarrow> \<forall>(n, c) \<in> set (Clients R). \<exists>cl. client_heap s c = Some cl \<and> \<not> closed (Send cl)"
  by (auto simp: members_ok_def list_all_iff split: option.splits)

lemma Broadcast_effect:
  assumes R: "roomAt s r = Some R" and free: "\<not> Room.Mutex R"
    and d: "distinct (map snd (Clients R))"
    and ok: "\<forall>(n, c) \<in> set (Clients R). \<exists>cl. client_heap s c = Some cl \<and> \<not> closed (Send cl)"
  shows "Broadcast r m ex s =
     (Returned (), s\<lparr>client_heap := (\<lambda>a. if a \<in> snd ` {(n, c) \<in> set (Clients R). n \<noteq> ex}
         then map_option (offer m) (client_heap s a) else client_heap s a)\<rparr>)"
proof -
  let ?R1 = "R\<lparr>Room.Mutex := True\<rparr>"
  let ?s1 = "setRoom r ?R1 s"
  let ?g = "\<lambda>a. if a \<in> snd ` {(n, c) \<in> set (Clients R). n \<noteq> ex}
         then map_option (offer m) (client_heap s a) else client_heap s a"
  have v: "r < length (room_heap s)" using R by (rule roomAt_valid)
  have l: "lockRoom r s = (Returned (), ?s1)" using R free by (rule lockRoom_free)
  have g: "getClients r ?s1 = (Returned (Clients R), ?s1)"
    using v by (simp add: getClients_def)
  have e: "sendEach m ex (Clients R) ?s1 = (Returned (), ?s1\<lparr>client_heap := ?g\<rparr>)"
    using sendEach_effect[of "Clients R" ?s1 m ex] d ok by (simp cong: if_cong)
  have "roomAt (?s1\<lparr>client_heap := ?g\<rparr>) r = Some ?R1" using v by simp
  then have u: "unlockRoom r (?s1\<lparr>client_heap := ?g\<rparr>) = (Returned (), setRoom r (R\<lparr>Room.Mutex := False\<rparr>) (?s1\<lparr>client_heap := ?g\<rparr>))"
    using unlockRoom_held[of "?s1\<lparr>client_heap := ?g\<rparr>" r ?R1] by simp
  have "R\<lparr>Room.Mutex := False\<rparr> = R" using free by simp
  then have f: "setRoom r (R\<lparr>Room.Mutex := False\<rparr>) (?s1\<lparr>client_heap := ?g\<rparr>) = s\<lparr>client_heap := ?g\<rparr>"
    using R by (simp add: setRoom_heap_update setRoom_same)
  show ?thesis
    by (simp add: Broadcast_def andThen_def deferring_def l g e u f del: roomAt_setRoom setRoom_setRoom)
qed

subsection \<open>Broadcast\<close>

lemma distinct_snd_unique:
  "distinct (map snd xs) \<Longrightarrow> (a, c) \<in> set xs \<Longrightarrow> (b, c) \<in> set xs \<Longrightarrow> a = b"
  by (induction xs) (auto simp: image_iff)

lemma recipient_iff:
  assumes d: "distinct (map snd xs)" and mem: "(name, c) \<in> set xs"
  shows "c \<in> snd ` {(n, c) \<in> set xs. n \<noteq> ex} \<longleftrightarrow> name \<noteq> ex"
proof
  assume "c \<in> snd ` {(n, c) \<in> set xs. n \<noteq> ex}"
  then obtain n where n: "(n, c) \<in> set xs" "n \<noteq> ex" by auto
  with distinct_snd_unique[OF d mem n(1)] show "name \<noteq> ex" by simp
next
  assume "name \<noteq> ex"
  with mem have "(name, c) \<in> {(n, c) \<in> set xs. n \<noteq> ex}" by simp
  then show "c \<in> snd ` {(n, c) \<in> set xs. n \<noteq> ex}" by force
qed

text \<open>
  C3. A broadcast into a room whose lock is free and whose member map is well formed
  returns and releases the lock. A member whose name is not the excluded one and whose
  queue is not full has the message appended to its queue; a member whose queue is full
  keeps its queue as it was, and so does the excluded member; nothing else changes. So a
  full queue costs that recipient the message and nobody else.
\<close>

theorem Broadcast_drops_for_full_queue_only:
  assumes "roomAt s r = Some R" and "\<not> Room.Mutex R" and "members_ok s R"
  shows "\<exists>s'. Broadcast r message exclude s = (Returned (), s') \<and>
     room_heap s' = room_heap s \<and> server s' = server s \<and>
     (\<forall>(name, c) \<in> set (Clients R). \<exists>cl. client_heap s c = Some cl \<and>
        client_heap s' c =
          Some (cl\<lparr>Send := (Send cl)\<lparr>buf :=
            (if name \<noteq> exclude \<and> length (buf (Send cl)) < cap (Send cl)
             then buf (Send cl) @ [message] else buf (Send cl))\<rparr>\<rparr>)) \<and>
     (\<forall>a. a \<notin> snd ` set (Clients R) \<longrightarrow> client_heap s' a = client_heap s a)"
proof -
  from assms(3) have d: "distinct (map snd (Clients R))" by (simp add: members_ok_def)
  note ok = members_ok_open[OF assms(3)]
  define g where "g = (\<lambda>a. if a \<in> snd ` {(n, c) \<in> set (Clients R). n \<noteq> exclude}
         then map_option (offer message) (client_heap s a) else client_heap s a)"
  have eff: "Broadcast r message exclude s = (Returned (), s\<lparr>client_heap := g\<rparr>)"
    unfolding g_def by (rule Broadcast_effect[OF assms(1,2) d ok])
  have 2: "\<exists>cl. client_heap s c = Some cl \<and>
        g c = Some (cl\<lparr>Send := (Send cl)\<lparr>buf :=
            (if name \<noteq> exclude \<and> length (buf (Send cl)) < cap (Send cl)
             then buf (Send cl) @ [message] else buf (Send cl))\<rparr>\<rparr>)"
    if mem: "(name, c) \<in> set (Clients R)" for name c
  proof -
    from ok mem obtain cl where cl: "client_heap s c = Some cl" by auto
    show ?thesis
      unfolding g_def recipient_iff[OF d mem] using cl by (simp add: offer_def)
  qed
  have 3: "g a = client_heap s a" if "a \<notin> snd ` set (Clients R)" for a
  proof -
    from that have "a \<notin> snd ` {(n, c) \<in> set (Clients R). n \<noteq> exclude}" by force
    then show ?thesis by (simp add: g_def)
  qed
  show ?thesis
  proof (intro exI conjI)
    show "Broadcast r message exclude s = (Returned (), s\<lparr>client_heap := g\<rparr>)" by (rule eff)
    show "room_heap (s\<lparr>client_heap := g\<rparr>) = room_heap s" by simp
    show "server (s\<lparr>client_heap := g\<rparr>) = server s" by simp
    show "\<forall>(name, c) \<in> set (Clients R). \<exists>cl. client_heap s c = Some cl \<and>
        client_heap (s\<lparr>client_heap := g\<rparr>) c =
          Some (cl\<lparr>Send := (Send cl)\<lparr>buf :=
            (if name \<noteq> exclude \<and> length (buf (Send cl)) < cap (Send cl)
             then buf (Send cl) @ [message] else buf (Send cl))\<rparr>\<rparr>)"
    proof (intro ballI, clarify)
      fix name c assume "(name, c) \<in> set (Clients R)"
      from 2[OF this] obtain cl where "client_heap s c = Some cl" and
        "g c = Some (cl\<lparr>Send := (Send cl)\<lparr>buf :=
            (if name \<noteq> exclude \<and> length (buf (Send cl)) < cap (Send cl)
             then buf (Send cl) @ [message] else buf (Send cl))\<rparr>\<rparr>)" by blast
      then show "\<exists>cl. client_heap s c = Some cl \<and>
        client_heap (s\<lparr>client_heap := g\<rparr>) c =
          Some (cl\<lparr>Send := (Send cl)\<lparr>buf :=
            (if name \<noteq> exclude \<and> length (buf (Send cl)) < cap (Send cl)
             then buf (Send cl) @ [message] else buf (Send cl))\<rparr>\<rparr>)"
        by (intro exI[of _ cl]) (simp del: split_paired_Ex)
    qed
    show "\<forall>a. a \<notin> snd ` set (Clients R) \<longrightarrow> client_heap (s\<lparr>client_heap := g\<rparr>) a = client_heap s a"
      using 3 by simp
  qed
qed

theorem Broadcast_drops_for_full_queue_only_witness:
  "roomAt demo_state 0 = Some demo_room \<and> \<not> Room.Mutex demo_room \<and>
   members_ok demo_state demo_room \<and>
   (\<exists>s'. Broadcast 0 ''hello'' ''C'' demo_state = (Returned (), s') \<and>
      map_option (\<lambda>cl. buf (Send cl)) (client_heap s' 1) = Some [''hello''] \<and>
      map_option (\<lambda>cl. buf (Send cl)) (client_heap s' 2) = Some (replicate 256 ''x'') \<and>
      map_option (\<lambda>cl. buf (Send cl)) (client_heap s' 3) = Some [])"
proof -
  have h1: "roomAt demo_state 0 = Some demo_room"
    by (simp add: roomAt_def demo_state_def)
  have h2: "\<not> Room.Mutex demo_room" by (simp add: demo_room_def)
  have h3: "members_ok demo_state demo_room"
    by (simp add: members_ok_def demo_state_def demo_room_def demo_client_def)
  from Broadcast_drops_for_full_queue_only[OF h1 h2 h3, of "''hello''" "''C''"]
  obtain s' where "Broadcast 0 ''hello'' ''C'' demo_state = (Returned (), s')"
    and "\<forall>(name, c) \<in> set (Clients demo_room). \<exists>cl. client_heap demo_state c = Some cl \<and>
        client_heap s' c =
          Some (cl\<lparr>Send := (Send cl)\<lparr>buf :=
            (if name \<noteq> ''C'' \<and> length (buf (Send cl)) < cap (Send cl)
             then buf (Send cl) @ [''hello''] else buf (Send cl))\<rparr>\<rparr>)"
    by blast
  then show ?thesis using h1 h2 h3
    by (auto simp: demo_state_def demo_room_def demo_client_def)
qed

subsection \<open>Example messages\<close>

lemmas demo_msgs = join_D_def join_A_def join_B_def join_unnamed_def offer_to_A_def offer_to_B_def
  offer_to_Z_def leave_msg_def ping_msg_def

lemma demo_unmarshal [simp]:
  "Unmarshal demo_json join_D = Some (map_of [(''type'', JString ''join''), (''name'', JString ''D''), (''room'', JString ''lobby'')])"
  "Unmarshal demo_json join_A = Some (map_of [(''type'', JString ''join''), (''name'', JString ''A''), (''room'', JString ''lobby'')])"
  "Unmarshal demo_json join_B = Some (map_of [(''type'', JString ''join''), (''name'', JString ''B''), (''room'', JString ''lobby'')])"
  "Unmarshal demo_json join_unnamed = Some (map_of [(''type'', JString ''join''), (''name'', JString []), (''room'', JString ''lobby'')])"
  "Unmarshal demo_json offer_to_A = Some (map_of [(''type'', JString ''offer''), (''target'', JString ''A''), (''sdp'', JString ''v=0'')])"
  "Unmarshal demo_json offer_to_B = Some (map_of [(''type'', JString ''offer''), (''target'', JString ''B''), (''sdp'', JString ''v=0'')])"
  "Unmarshal demo_json offer_to_Z = Some (map_of [(''type'', JString ''offer''), (''target'', JString ''Z''), (''sdp'', JString ''v=0'')])"
  "Unmarshal demo_json leave_msg = Some (map_of [(''type'', JString ''leave'')])"
  "Unmarshal demo_json ping_msg = Some (map_of [(''type'', JString ''ping'')])"
  "Unmarshal demo_json ''garbage'' = None"
  by (simp_all add: demo_json_def demo_messages_def demo_msgs)

subsection \<open>Removing a client\<close>

lemma RemoveClient_blocks:
  assumes R: "roomAt s r = Some R" and free: "\<not> Room.Mutex R"
  shows "RemoveClient J r n s =
     (Blocked, setRoom r (R\<lparr>Room.Mutex := True, Clients := AList.delete n (Clients R)\<rparr>) s)"
proof -
  let ?s1 = "setRoom r (R\<lparr>Room.Mutex := True\<rparr>) s"
  let ?s2 = "setRoom r (R\<lparr>Room.Mutex := True, Clients := AList.delete n (Clients R)\<rparr>) s"
  have v: "r < length (room_heap s)" using R by (rule roomAt_valid)
  have l: "lockRoom r s = (Returned (), ?s1)" using R free by (rule lockRoom_free)
  have m: "modifyClients r (AList.delete n) ?s1 = (Returned (), ?s2)"
    using v by (simp add: modifyClients_def)
  have "roomAt ?s2 r = Some (R\<lparr>Room.Mutex := True, Clients := AList.delete n (Clients R)\<rparr>)"
    using v by simp
  then have l2: "lockRoom r ?s2 = (Blocked, ?s2)"
    by (rule lockRoom_held) simp
  have b: "Broadcast r m' ex ?s2 = (Blocked, ?s2)" for m' ex
    by (simp add: Broadcast_def andThen_def l2)
  show ?thesis
    by (simp add: RemoveClient_def andThen_def deferring_def l m b del: roomAt_setRoom setRoom_setRoom)
qed

lemma RemoveClient_waits:
  "roomAt s r = Some R \<Longrightarrow> Room.Mutex R \<Longrightarrow> RemoveClient J r n s = (Blocked, s)"
  by (simp add: RemoveClient_def andThen_def lockRoom_held)

text \<open>
  C6. The claim is that every acquired lock is released again. \<open>RemoveClient\<close> acquires
  the lock of its room and, still holding it, calls \<open>Broadcast\<close>, which starts by
  acquiring the same lock; \<^verbatim>\<open>sync.Mutex\<close> is not re-entrant. Called on a room whose lock
  is free, \<open>RemoveClient\<close> therefore does not return: it is blocked with the lock of the
  room held. The only \<^verbatim>\<open>Unlock\<close> that would release it is its own deferred one, so the
  lock stays held, and every later \<open>Lock\<close> on that room and every \<open>Broadcast\<close> into it
  blocks as well.
\<close>

theorem RemoveClient_keeps_lock_forever:
  assumes "roomAt s r = Some R" and "\<not> Room.Mutex R"
  shows "\<exists>s'. RemoveClient J r clientName s = (Blocked, s') \<and>
     map_option Room.Mutex (roomAt s' r) = Some True \<and>
     lockRoom r s' = (Blocked, s') \<and>
     Broadcast r message exclude s' = (Blocked, s')"
proof -
  let ?R2 = "R\<lparr>Room.Mutex := True, Clients := AList.delete clientName (Clients R)\<rparr>"
  let ?s2 = "setRoom r ?R2 s"
  have v: "r < length (room_heap s)" using assms(1) by (rule roomAt_valid)
  have r2: "roomAt ?s2 r = Some ?R2" using v by simp
  have l2: "lockRoom r ?s2 = (Blocked, ?s2)" using r2 by (rule lockRoom_held) simp
  have "Broadcast r message exclude ?s2 = (Blocked, ?s2)"
    by (simp add: Broadcast_def andThen_def l2)
  with RemoveClient_blocks[OF assms, of J clientName] r2 l2 show ?thesis by simp
qed

theorem RemoveClient_keeps_lock_forever_witness:
  "roomAt demo_state 0 = Some demo_room \<and> \<not> Room.Mutex demo_room \<and>
   fst (RemoveClient demo_json 0 ''C'' demo_state) = Blocked \<and>
   map_option Room.Mutex (roomAt (snd (RemoveClient demo_json 0 ''C'' demo_state)) 0) = Some True"
proof -
  have h1: "roomAt demo_state 0 = Some demo_room"
    by (simp add: roomAt_def demo_state_def)
  have h2: "\<not> Room.Mutex demo_room" by (simp add: demo_room_def)
  from RemoveClient_keeps_lock_forever[OF h1 h2, of demo_json "''C''" "[]" "[]"] h1 h2
  show ?thesis by auto
qed

text \<open>
  C5. The claim is that removing a client deletes its entry and then broadcasts one leave
  message to the remaining members. Called on a room whose lock is free, \<open>RemoveClient\<close>
  deletes the entry and then blocks in its own \<open>Broadcast\<close>: it never returns and no client's
  queue has changed, so no leave message reaches anyone.
\<close>

theorem RemoveClient_delivers_no_leave:
  assumes "roomAt s r = Some R" and "\<not> Room.Mutex R"
  shows "\<exists>s'. RemoveClient J r clientName s = (Blocked, s') \<and>
     map_option Clients (roomAt s' r) = Some (AList.delete clientName (Clients R)) \<and>
     client_heap s' = client_heap s"
proof -
  have v: "r < length (room_heap s)" using assms(1) by (rule roomAt_valid)
  show ?thesis
    using RemoveClient_blocks[OF assms, of J clientName] v by simp
qed

theorem RemoveClient_delivers_no_leave_witness:
  "roomAt demo_state 0 = Some demo_room \<and> \<not> Room.Mutex demo_room \<and>
   fst (RemoveClient demo_json 0 ''C'' demo_state) = Blocked \<and>
   map_option Clients (roomAt (snd (RemoveClient demo_json 0 ''C'' demo_state)) 0) = Some [(''A'', 1), (''B'', 2)] \<and>
   map_option (\<lambda>cl. buf (Send cl)) (client_heap (snd (RemoveClient demo_json 0 ''C'' demo_state)) 1) = Some []"
proof -
  have h1: "roomAt demo_state 0 = Some demo_room"
    by (simp add: roomAt_def demo_state_def)
  have h2: "\<not> Room.Mutex demo_room" by (simp add: demo_room_def)
  from RemoveClient_delivers_no_leave[OF h1 h2, of demo_json "''C''"] h1 h2
  show ?thesis by (auto simp: demo_room_def demo_state_def demo_client_def AList.delete_eq)
qed

subsection \<open>Leaving\<close>

lemma readLoop_leave:
  "client_heap s c = Some cl \<Longrightarrow> \<not> isClosed (Socket cl) \<Longrightarrow> Unmarshal J m = Some data \<Longrightarrow>
   asString (data ''type'') = ''leave'' \<Longrightarrow> readLoop J c (m # rest) s = (Returned (), s)"
  by simp

lemma cleanup_blocks:
  assumes "client_heap s c = Some cl" and "Room cl = Some r" and "roomAt s r = Some R"
    and "\<not> Room.Mutex R"
  shows "cleanup J c s =
     (Blocked, setRoom r (R\<lparr>Room.Mutex := True, Clients := AList.delete (Client.Name cl) (Clients R)\<rparr>) s)"
  using assms by (simp add: cleanup_def andThen_def RemoveClient_blocks del: roomAt_setRoom)

text \<open>
  C8. A leave message ends the read loop of an admitted client exactly as the end of the
  connection does, and the deferred cleanup calls \<open>RemoveClient\<close> with the client's name.
  The claim goes on: then the connection is closed and the outbound queue is closed. In the
  code \<open>RemoveClient\<close> never returns (see C6), so \<open>readMessages\<close> stays blocked after
  deleting the entry: the client object is what it was, its socket still open and its
  channel not closed.
\<close>

theorem leave_cleanup_never_closes:
  assumes "client_heap s c = Some cl" and "\<not> isClosed (Socket cl)" and "Room cl = Some r"
    and "roomAt s r = Some R" and "\<not> Room.Mutex R"
    and "Unmarshal J message = Some data" and "asString (data ''type'') = ''leave''"
  shows "readMessages J c (message # rest) s = readMessages J c [] s \<and>
     (\<exists>s'. readMessages J c (message # rest) s = (Blocked, s') \<and>
        map_option Clients (roomAt s' r) = Some (AList.delete (Client.Name cl) (Clients R)) \<and>
        map_option Room.Mutex (roomAt s' r) = Some True \<and>
        client_heap s' c = Some cl)"
proof -
  have v: "r < length (room_heap s)" using assms(4) by (rule roomAt_valid)
  have loop: "readLoop J c (message # rest) s = (Returned (), s)"
    using assms(1,2,6,7) by (rule readLoop_leave)
  have cl: "cleanup J c s =
     (Blocked, setRoom r (R\<lparr>Room.Mutex := True, Clients := AList.delete (Client.Name cl) (Clients R)\<rparr>) s)"
    using assms(1,3,4,5) by (rule cleanup_blocks)
  have 1: "readMessages J c (message # rest) s =
     (Blocked, setRoom r (R\<lparr>Room.Mutex := True, Clients := AList.delete (Client.Name cl) (Clients R)\<rparr>) s)"
    by (simp add: readMessages_def deferring_def loop cl del: readLoop.simps)
  have 2: "readMessages J c [] s =
     (Blocked, setRoom r (R\<lparr>Room.Mutex := True, Clients := AList.delete (Client.Name cl) (Clients R)\<rparr>) s)"
    by (simp add: readMessages_def deferring_def cl)
  show ?thesis using v assms(1) by (simp add: 1 2)
qed

theorem leave_cleanup_never_closes_witness:
  "client_heap demo_state 3 = Some (demo_client ''C'' []) \<and>
   \<not> isClosed (Socket (demo_client ''C'' [])) \<and> Room (demo_client ''C'' []) = Some 0 \<and>
   roomAt demo_state 0 = Some demo_room \<and> \<not> Room.Mutex demo_room \<and>
   Unmarshal demo_json leave_msg = Some [''type'' \<mapsto> JString ''leave''] \<and>
   asString ([''type'' \<mapsto> JString ''leave''] ''type'') = ''leave'' \<and>
   fst (readMessages demo_json 3 [leave_msg, ping_msg] demo_state) = Blocked \<and>
   client_heap (snd (readMessages demo_json 3 [leave_msg, ping_msg] demo_state)) 3
     = Some (demo_client ''C'' [])"
proof -
  have h1: "client_heap demo_state 3 = Some (demo_client ''C'' [])" by (simp add: demo_state_def)
  have h2: "\<not> isClosed (Socket (demo_client ''C'' []))" by (simp add: demo_client_def)
  have h3: "Room (demo_client ''C'' []) = Some 0" by (simp add: demo_client_def)
  have h4: "roomAt demo_state 0 = Some demo_room" by (simp add: roomAt_def demo_state_def)
  have h5: "\<not> Room.Mutex demo_room" by (simp add: demo_room_def)
  have h6: "Unmarshal demo_json leave_msg = Some [''type'' \<mapsto> JString ''leave'']"
    by simp
  have h7: "asString ([''type'' \<mapsto> JString ''leave''] ''type'') = ''leave''"
    by (simp add: asString_def)
  from leave_cleanup_never_closes[OF h1 h2 h3 h4 h5 h6 h7, of "[ping_msg]"]
  obtain s' where e: "readMessages demo_json 3 [leave_msg, ping_msg] demo_state = (Blocked, s')"
    and c: "client_heap s' 3 = Some (demo_client ''C'' [])"
    by blast
  show ?thesis using h1 h2 h3 h4 h5 h6 h7 c by (simp only: e fst_conv snd_conv) simp
qed

subsection \<open>Targeted forwarding\<close>

lemma lock_get_unlock:
  assumes R: "roomAt s r = Some R" and free: "\<not> Room.Mutex R"
  shows "andThen (lockRoom r) (\<lambda>_. andThen (getClients r) (\<lambda>members. andThen (unlockRoom r) (\<lambda>_. k members))) s
     = k (Clients R) s"
proof -
  let ?s1 = "setRoom r (R\<lparr>Room.Mutex := True\<rparr>) s"
  have v: "r < length (room_heap s)" using R by (rule roomAt_valid)
  have l: "lockRoom r s = (Returned (), ?s1)" using R free by (rule lockRoom_free)
  have g: "getClients r ?s1 = (Returned (Clients R), ?s1)"
    using v by (simp add: getClients_def)
  have "R\<lparr>Room.Mutex := False\<rparr> = R" using free by simp
  then have u: "unlockRoom r ?s1 = (Returned (), s)"
    using v R by (simp add: unlockRoom_def setRoom_same)
  show ?thesis
    by (simp add: andThen_def l g u del: roomAt_setRoom)
qed

lemma forward_effect:
  assumes "client_heap s c = Some cl" and "Room cl = Some r" and "roomAt s r = Some R"
    and "\<not> Room.Mutex R"
  shows "forward c target m s =
     (case map_of (Clients R) target of
        None \<Rightarrow> (Returned (), s)
      | Some t \<Rightarrow> andThen (trySend t m) (\<lambda>_ s'. (Returned (), s')) s)"
  using assms(1,2) by (simp add: forward_def lock_get_unlock[OF assms(3,4)] split: option.splits)

lemma readLoop_forward:
  assumes c: "client_heap s c = Some cl" "\<not> isClosed (Socket cl)" "Room cl = Some r"
    and R: "roomAt s r = Some R" "\<not> Room.Mutex R"
    and m: "Unmarshal J message = Some data"
      "asString (data ''type'') \<in> {''offer'', ''answer'', ''candidate''}"
      "asString (data ''target'') = target" "target \<noteq> []"
  shows "map_of (Clients R) target = None \<Longrightarrow>
           readLoop J c (message # rest) s = readLoop J c rest s"
    and "map_of (Clients R) target = Some t \<Longrightarrow> client_heap s t = Some tcl \<Longrightarrow>
         \<not> closed (Send tcl) \<Longrightarrow>
           readLoop J c (message # rest) s =
           readLoop J c rest (s\<lparr>client_heap := (client_heap s)(t \<mapsto> offer message tcl)\<rparr>)"
proof -
  note f = forward_effect[OF c(1,3) R, of target message]
  show "map_of (Clients R) target = None \<Longrightarrow>
           readLoop J c (message # rest) s = readLoop J c rest s"
    using c m by (auto simp: f)
  show "map_of (Clients R) target = Some t \<Longrightarrow> client_heap s t = Some tcl \<Longrightarrow>
         \<not> closed (Send tcl) \<Longrightarrow>
           readLoop J c (message # rest) s =
           readLoop J c rest (s\<lparr>client_heap := (client_heap s)(t \<mapsto> offer message tcl)\<rparr>)"
    using c m by (auto simp: f andThen_def trySend_open)
qed

lemmas demo_defs = demo_state_def demo_room_def demo_client_def
lemmas run_defs = forward_def andThen_def deferring_def lockRoom_def unlockRoom_def getClients_def
  modifyClients_def modifyClient_def roomAt_def setRoom_def trySend_def send_def closeSocket_def asString_def

text \<open>
  C4, as amended. An admitted client (socket open, room lock free, member map well formed)
  sends a message of type offer, answer or candidate with a non-empty string target. If
  the target names a member of the sender's room, the raw message is offered, unmodified,
  to that member's queue by a non-blocking send: it is appended when the queue has room and
  dropped when the queue is full; no other client and no room changes. If the target names
  no member, nothing changes at all. Either way the loop goes on with the next message.
\<close>

theorem forward_to_target_only:
  assumes "client_heap s c = Some cl" and "\<not> isClosed (Socket cl)" and "Room cl = Some r"
    and "roomAt s r = Some R" and "\<not> Room.Mutex R" and "members_ok s R"
    and "Unmarshal J message = Some data"
    and "asString (data ''type'') \<in> {''offer'', ''answer'', ''candidate''}"
    and "asString (data ''target'') \<noteq> []"
  shows "case map_of (Clients R) (asString (data ''target'')) of
           None \<Rightarrow> readLoop J c (message # rest) s = readLoop J c rest s
         | Some t \<Rightarrow>
             \<exists>tcl. client_heap s t = Some tcl \<and>
               readLoop J c (message # rest) s =
               readLoop J c rest
                 (s\<lparr>client_heap := (client_heap s)
                     (t \<mapsto> tcl\<lparr>Send := (Send tcl)\<lparr>buf :=
                        (if length (buf (Send tcl)) < cap (Send tcl)
                         then buf (Send tcl) @ [message] else buf (Send tcl))\<rparr>\<rparr>)\<rparr>)"
proof (cases "map_of (Clients R) (asString (data ''target''))")
  case None
  then show ?thesis
    using readLoop_forward(1)[OF assms(1,2,3,4,5,7,8) refl assms(9)] by simp
next
  case (Some t)
  then have "(asString (data ''target''), t) \<in> set (Clients R)" by (rule map_of_SomeD)
  with members_ok_open[OF assms(6)] obtain tcl
    where tcl: "client_heap s t = Some tcl" "\<not> closed (Send tcl)" by auto
  show ?thesis
    using readLoop_forward(2)[OF assms(1,2,3,4,5,7,8) refl assms(9) Some tcl] tcl(1) Some
    by (simp add: offer_def)
qed

theorem forward_to_target_only_witness:
  "client_heap demo_state 3 = Some (demo_client ''C'' []) \<and>
   \<not> isClosed (Socket (demo_client ''C'' [])) \<and> Room (demo_client ''C'' []) = Some 0 \<and>
   roomAt demo_state 0 = Some demo_room \<and> \<not> Room.Mutex demo_room \<and>
   members_ok demo_state demo_room \<and>
   Unmarshal demo_json offer_to_A =
     Some (map_of [(''type'', JString ''offer''), (''target'', JString ''A''), (''sdp'', JString ''v=0'')]) \<and>
   readLoop demo_json 3 [offer_to_A] demo_state =
     (Returned (), demo_state\<lparr>client_heap := (client_heap demo_state)(1 \<mapsto> demo_client ''A'' [offer_to_A])\<rparr>) \<and>
   readLoop demo_json 3 [offer_to_Z] demo_state = (Returned (), demo_state)"
proof -
  have h1: "client_heap demo_state 3 = Some (demo_client ''C'' [])" by (simp add: demo_state_def)
  have h2: "\<not> isClosed (Socket (demo_client ''C'' []))" by (simp add: demo_client_def)
  have h3: "Room (demo_client ''C'' []) = Some 0" by (simp add: demo_client_def)
  have h4: "roomAt demo_state 0 = Some demo_room" by (simp add: roomAt_def demo_state_def)
  have h5: "\<not> Room.Mutex demo_room" by (simp add: demo_room_def)
  have h6: "members_ok demo_state demo_room" by (simp add: members_ok_def demo_defs)
  let ?dA = "map_of [(''type'', JString ''offer''), (''target'', JString ''A''), (''sdp'', JString ''v=0'')]"
  let ?dZ = "map_of [(''type'', JString ''offer''), (''target'', JString ''Z''), (''sdp'', JString ''v=0'')]"
  have a: "Unmarshal demo_json offer_to_A = Some ?dA" by simp
  have z: "Unmarshal demo_json offer_to_Z = Some ?dZ" by simp
  have t: "asString (?dA ''type'') \<in> {''offer'', ''answer'', ''candidate''}"
     "asString (?dZ ''type'') \<in> {''offer'', ''answer'', ''candidate''}"
     "asString (?dA ''target'') \<noteq> []" "asString (?dZ ''target'') \<noteq> []"
    by (simp_all add: asString_def)
  from forward_to_target_only[OF h1 h2 h3 h4 h5 h6 a t(1) t(3), of "[]"]
  have 1: "readLoop demo_json 3 [offer_to_A] demo_state =
     (Returned (), demo_state\<lparr>client_heap := (client_heap demo_state)(1 \<mapsto> demo_client ''A'' [offer_to_A])\<rparr>)"
    by (simp add: asString_def demo_defs)
  from forward_to_target_only[OF h1 h2 h3 h4 h5 h6 z t(2) t(4), of "[]"]
  have 2: "readLoop demo_json 3 [offer_to_Z] demo_state = (Returned (), demo_state)"
    by (simp add: asString_def demo_room_def)
  show ?thesis using h1 h2 h3 h4 h5 h6 a 1 2 by blast
qed

text \<open>
  The claim as stated has the bytes enqueued whenever the target is a member. Here A sends
  an offer to B, a member whose queue holds 256 messages: the state is unchanged and the
  offer is in nobody's queue.
\<close>

theorem forward_to_full_queue_counterexample:
  "client_heap demo_state 1 = Some (demo_client ''A'' []) \<and>
   map_of (Clients demo_room) ''B'' = Some 2 \<and>
   client_heap demo_state 2 = Some (demo_client ''B'' (replicate 256 ''x'')) \<and>
   Unmarshal demo_json offer_to_B =
     Some (map_of [(''type'', JString ''offer''), (''target'', JString ''B''), (''sdp'', JString ''v=0'')]) \<and>
   readLoop demo_json 1 [offer_to_B] demo_state = (Returned (), demo_state) \<and>
   offer_to_B \<notin> set (buf (Send (demo_client ''B'' (replicate 256 ''x''))))"
proof -
  have "readLoop demo_json 1 [offer_to_B] demo_state = (Returned (), demo_state)"
    by (simp add: demo_defs run_defs Let_def)
  moreover have "offer_to_B \<notin> set (buf (Send (demo_client ''B'' (replicate 256 ''x''))))"
    by (simp add: demo_client_def offer_to_B_def)
  ultimately show ?thesis by (simp add: demo_defs)
qed

text \<open>
  C10, as amended. An admitted client that is registered under its own name sends an offer,
  answer or candidate whose target is that name. The lookup finds the sender itself and
  the message is offered to the sender's own queue: appended when the queue has room,
  dropped when it is full. Unlike a broadcast, forwarding does not exclude the sender.
\<close>

theorem forward_does_not_exclude_sender:
  assumes "client_heap s c = Some cl" and "\<not> isClosed (Socket cl)" and "\<not> closed (Send cl)"
    and "Room cl = Some r" and "roomAt s r = Some R" and "\<not> Room.Mutex R"
    and "map_of (Clients R) (Client.Name cl) = Some c"
    and "Unmarshal J message = Some data"
    and "asString (data ''type'') \<in> {''offer'', ''answer'', ''candidate''}"
    and "asString (data ''target'') = Client.Name cl" and "Client.Name cl \<noteq> []"
  shows "readLoop J c (message # rest) s =
         readLoop J c rest
           (s\<lparr>client_heap := (client_heap s)
               (c \<mapsto> cl\<lparr>Send := (Send cl)\<lparr>buf :=
                  (if length (buf (Send cl)) < cap (Send cl)
                   then buf (Send cl) @ [message] else buf (Send cl))\<rparr>\<rparr>)\<rparr>)"
  using readLoop_forward(2)[OF assms(1,2,4,5,6,8,9,10,11,7) assms(1,3), of rest]
  by (simp add: offer_def)

theorem forward_does_not_exclude_sender_witness:
  "client_heap demo_state 1 = Some (demo_client ''A'' []) \<and>
   \<not> isClosed (Socket (demo_client ''A'' [])) \<and> \<not> closed (Send (demo_client ''A'' [])) \<and>
   Room (demo_client ''A'' []) = Some 0 \<and>
   roomAt demo_state 0 = Some demo_room \<and> \<not> Room.Mutex demo_room \<and>
   map_of (Clients demo_room) (Client.Name (demo_client ''A'' [])) = Some 1 \<and>
   Unmarshal demo_json offer_to_A =
     Some (map_of [(''type'', JString ''offer''), (''target'', JString ''A''), (''sdp'', JString ''v=0'')]) \<and>
   readLoop demo_json 1 [offer_to_A] demo_state =
     (Returned (), demo_state\<lparr>client_heap := (client_heap demo_state)(1 \<mapsto> demo_client ''A'' [offer_to_A])\<rparr>)"
proof -
  let ?A = "demo_client ''A'' []"
  let ?d = "map_of [(''type'', JString ''offer''), (''target'', JString ''A''), (''sdp'', JString ''v=0'')]"
  have h1: "client_heap demo_state 1 = Some ?A" by (simp add: demo_state_def)
  have h2: "\<not> isClosed (Socket ?A)" by (simp add: demo_client_def)
  have h3: "\<not> closed (Send ?A)" by (simp add: demo_client_def)
  have h4: "Room ?A = Some 0" by (simp add: demo_client_def)
  have h5: "roomAt demo_state 0 = Some demo_room" by (simp add: roomAt_def demo_state_def)
  have h6: "\<not> Room.Mutex demo_room" by (simp add: demo_room_def)
  have h7: "map_of (Clients demo_room) (Client.Name ?A) = Some 1" by (simp add: demo_defs)
  have h8: "Unmarshal demo_json offer_to_A = Some ?d" by simp
  have h9: "asString (?d ''type'') \<in> {''offer'', ''answer'', ''candidate''}"
    by (simp add: asString_def)
  have h10: "asString (?d ''target'') = Client.Name ?A" by (simp add: asString_def demo_client_def)
  have h11: "Client.Name ?A \<noteq> []" by (simp add: demo_client_def)
  from forward_does_not_exclude_sender[OF h1 h2 h3 h4 h5 h6 h7 h8 h9 h10 h11, of "[]"]
  have "readLoop demo_json 1 [offer_to_A] demo_state =
     (Returned (), demo_state\<lparr>client_heap := (client_heap demo_state)(1 \<mapsto> demo_client ''A'' [offer_to_A])\<rparr>)"
    by (simp add: demo_client_def)
  with h1 h2 h3 h4 h5 h6 h7 h8 show ?thesis by blast
qed

text \<open>
  The claim as stated has the message enqueued on the sender's queue in every case. Here B,
  whose queue holds 256 messages, targets itself: the state is unchanged.
\<close>

theorem forward_to_self_full_queue_counterexample:
  "client_heap demo_state 2 = Some (demo_client ''B'' (replicate 256 ''x'')) \<and>
   map_of (Clients demo_room) ''B'' = Some 2 \<and>
   Unmarshal demo_json offer_to_B =
     Some (map_of [(''type'', JString ''offer''), (''target'', JString ''B''), (''sdp'', JString ''v=0'')]) \<and>
   readLoop demo_json 2 [offer_to_B] demo_state = (Returned (), demo_state) \<and>
   offer_to_B \<notin> set (buf (Send (demo_client ''B'' (replicate 256 ''x''))))"
proof -
  have "readLoop demo_json 2 [offer_to_B] demo_state = (Returned (), demo_state)"
    by (simp add: demo_defs run_defs Let_def)
  moreover have "offer_to_B \<notin> set (buf (Send (demo_client ''B'' (replicate 256 ''x''))))"
    by (simp add: demo_client_def offer_to_B_def)
  ultimately show ?thesis by (simp add: demo_defs)
qed

subsection \<open>The join handshake\<close>

lemma delete_absent: "map_of xs k = None \<Longrightarrow> AList.delete k xs = xs"
  by (induction xs) (auto split: if_splits)

lemma names_without:
  "filter (\<lambda>n. n \<noteq> k) (map fst (AList.update k v (AList.delete k xs))) = filter (\<lambda>n. n \<noteq> k) (map fst xs)"
proof -
  have "map_of (AList.delete k xs) k = None" by (simp add: delete_conv')
  then have "AList.update k v (AList.delete k xs) = AList.delete k xs @ [(k, v)]"
    by (rule update_absent)
  moreover have "filter (\<lambda>n. n \<noteq> k) (map fst (AList.delete k xs)) = filter (\<lambda>n. n \<noteq> k) (map fst xs)"
    by (induction xs) auto
  ultimately show ?thesis by simp
qed

lemma entries_after_join:
  "set (AList.update k v (AList.delete k xs)) = {(n, a) \<in> set xs. n \<noteq> k} \<union> {(k, v)}"
proof -
  have "map_of (AList.delete k xs) k = None" by (simp add: delete_conv')
  then have "AList.update k v (AList.delete k xs) = AList.delete k xs @ [(k, v)]"
    by (rule update_absent)
  then show ?thesis by (auto simp: AList.delete_eq)
qed

lemma evictExisting_effect:
  assumes R: "roomAt s room = Some R"
    and ok: "\<forall>(n, a) \<in> set (Clients R). \<exists>cl. client_heap s a = Some cl"
  shows "evictExisting room name s =
     (Returned (),
      (setRoom room (R\<lparr>Clients := AList.delete name (Clients R)\<rparr>) s)
        \<lparr>client_heap := (case map_of (Clients R) name of
             None \<Rightarrow> client_heap s
           | Some e \<Rightarrow> (client_heap s)(e := map_option closing (client_heap s e)))\<rparr>)"
proof (cases "map_of (Clients R) name")
  case None
  then have "R\<lparr>Clients := AList.delete name (Clients R)\<rparr> = R"
    by (simp add: delete_absent)
  then show ?thesis
    using R None by (simp add: evictExisting_def andThen_def getClients_def setRoom_same)
next
  case (Some e)
  then have "(name, e) \<in> set (Clients R)" by (rule map_of_SomeD)
  with ok obtain ecl where ecl: "client_heap s e = Some ecl" by auto
  have v: "r < length (room_heap s)" if "roomAt s r = Some R" for r
    using that by (rule roomAt_valid)
  show ?thesis
    using R Some ecl
    by (simp add: evictExisting_def andThen_def getClients_def closeSocket_def modifyClients_def
        closing_def setRoom_heap_update)
qed

lemma andThen_Returned: "m s = (Returned x, s') \<Longrightarrow> andThen m f s = f x s'"
  by (simp add: andThen_def)

lemma send_open:
  "client_heap s c = Some cl \<Longrightarrow> \<not> closed (Send cl) \<Longrightarrow> length (buf (Send cl)) < cap (Send cl) \<Longrightarrow>
   send c m s = (Returned (), s\<lparr>client_heap := (client_heap s)(c \<mapsto> cl\<lparr>Send := (Send cl)\<lparr>buf := buf (Send cl) @ [m]\<rparr>\<rparr>)\<rparr>)"
  by (simp add: send_def)

lemma enterRoom_effect:
  assumes c: "client_heap s c = Some cl" "\<not> closed (Send cl)" "length (buf (Send cl)) < cap (Send cl)"
    and R: "roomAt s room = Some R" "\<not> Room.Mutex R" "members_ok s R"
    and fresh: "c \<notin> snd ` set (Clients R)"
  shows "enterRoom J c name room s = (Returned (), joined J c cl name room R s)"
proof -
  let ?h0 = "client_heap s"
  let ?cl1 = "cl\<lparr>Room := Some room\<rparr>"
  let ?h1 = "?h0(c \<mapsto> ?cl1)"
  let ?D = "AList.delete name (Clients R)"
  let ?M = "AList.update name c ?D"
  let ?h2 = "case map_of (Clients R) name of None \<Rightarrow> ?h1
             | Some e \<Rightarrow> ?h1(e := map_option closing (?h1 e))"
  let ?ul = "Marshal J [(''type'', JString ''user-list''),
                (''users'', JArray (map JString (filter (\<lambda>n. n \<noteq> name) (map fst ?M))))]"
  let ?nu = "Marshal J [(''type'', JString ''new-user''), (''name'', JString name)]"
  let ?cl2 = "?cl1\<lparr>Send := (Send ?cl1)\<lparr>buf := buf (Send ?cl1) @ [?ul]\<rparr>\<rparr>"
  let ?h3 = "?h2(c \<mapsto> ?cl2)"
  let ?sa = "s\<lparr>client_heap := ?h1\<rparr>"
  let ?sb = "setRoom room (R\<lparr>Room.Mutex := True\<rparr>) ?sa"
  let ?sc = "(setRoom room (R\<lparr>Room.Mutex := True, Clients := ?D\<rparr>) ?sb)\<lparr>client_heap := ?h2\<rparr>"
  let ?sd = "setRoom room (R\<lparr>Room.Mutex := True, Clients := ?M\<rparr>) ?sc"
  let ?R' = "R\<lparr>Clients := ?M\<rparr>"
  let ?se = "(setRoom room ?R' s)\<lparr>client_heap := ?h2\<rparr>"
  let ?sf = "?se\<lparr>client_heap := ?h3\<rparr>"
  have v: "room < length (room_heap s)" using R(1) by (rule roomAt_valid)
  note ok = members_ok_open[OF R(3)]
  have d: "distinct (map snd (Clients R))" using R(3) by (simp add: members_ok_def)
  have ne: "e \<noteq> c" if "map_of (Clients R) name = Some e" for e
  proof -
    from that have "(name, e) \<in> set (Clients R)" by (rule map_of_SomeD)
    then have "e \<in> snd ` set (Clients R)" by force
    with fresh show ?thesis by auto
  qed
  have a: "modifyClient c (\<lambda>cl. cl\<lparr>Room := Some room\<rparr>) s = (Returned (), ?sa)"
    using c(1) by (simp add: modifyClient_def)
  have b: "lockRoom room ?sa = (Returned (), ?sb)"
    using R(1,2) by (simp add: lockRoom_def)
  have okb: "\<forall>(n, a) \<in> set (Clients (R\<lparr>Room.Mutex := True\<rparr>)). \<exists>cl. client_heap ?sb a = Some cl"
    using ok by auto
  have rb: "roomAt ?sb room = Some (R\<lparr>Room.Mutex := True\<rparr>)" using v by simp
  have c': "evictExisting room name ?sb = (Returned (), ?sc)"
    using evictExisting_effect[OF rb okb, of name] by (simp cong: option.case_cong)
  have rc: "roomAt ?sc room = Some (R\<lparr>Room.Mutex := True, Clients := ?D\<rparr>)" using v by simp
  have d': "modifyClients room (AList.update name c) ?sc = (Returned (), ?sd)"
    using rc by (simp add: modifyClients_def)
  have rd: "roomAt ?sd room = Some (R\<lparr>Room.Mutex := True, Clients := ?M\<rparr>)" using v by simp
  have "(R\<lparr>Room.Mutex := True, Clients := ?M\<rparr>)\<lparr>Room.Mutex := False\<rparr> = ?R'"
    using R(2) by (cases R) simp
  then have e': "unlockRoom room ?sd = (Returned (), ?se)"
    using rd by (simp add: unlockRoom_def setRoom_heap_update setRoom_def)
  have re: "roomAt ?se room = Some ?R'" using v by simp
  have fr: "\<not> Room.Mutex ?R'" using R(2) by simp
  have h2c: "?h2 c = Some ?cl1"
    using ne by (auto split: option.splits)
  have g: "send c ?ul ?se = (Returned (), ?sf)"
    using send_open[of ?se c ?cl1 ?ul] h2c c(2,3) by simp
  let ?ulR = "Marshal J [(''type'', JString ''user-list''),
                (''users'', JArray (map JString (filter (\<lambda>n. n \<noteq> name) (map fst (Clients ?R')))))]"
  have g': "send c ?ulR ?se = (Returned (), ?sf)" using g by simp
  have rf: "roomAt ?sf room = Some ?R'" using v by simp
  have setM: "set ?M = {(n, a) \<in> set (Clients R). n \<noteq> name} \<union> {(name, c)}"
    by (rule entries_after_join)
  have dM: "distinct (map snd (Clients ?R'))"
  proof -
    have "map_of ?D name = None" by (simp add: delete_conv')
    then have "?M = ?D @ [(name, c)]" by (rule update_absent)
    moreover have "distinct (map snd ?D)"
      using d by (simp add: AList.delete_eq distinct_map_filter)
    moreover have "c \<notin> snd ` set ?D" using fresh by (auto simp: AList.delete_eq)
    ultimately show ?thesis by simp
  qed
  have okf: "\<forall>(n, a) \<in> set (Clients ?R'). \<exists>cl. client_heap ?sf a = Some cl \<and> \<not> closed (Send cl)"
  proof (clarify)
    fix n a assume "(n, a) \<in> set (Clients ?R')"
    then consider "a = c" | "(n, a) \<in> set (Clients R)" "n \<noteq> name" "a \<noteq> c"
      using setM fresh by force
    then show "\<exists>cl. client_heap ?sf a = Some cl \<and> \<not> closed (Send cl)"
    proof cases
      case 1
      then show ?thesis using c(2) by simp
    next
      case 2
      with ok obtain acl where acl: "?h0 a = Some acl" "\<not> closed (Send acl)" by auto
      show ?thesis
      proof (cases "map_of (Clients R) name")
        case None
        then show ?thesis using 2 acl by simp
      next
        case (Some e)
        then show ?thesis using 2 acl by (auto simp: closing_def)
      qed
    qed
  qed
  have h: "Broadcast room ?nu name ?sf =
     (Returned (), ?sf\<lparr>client_heap := (\<lambda>a. if a \<in> snd ` {(n, c) \<in> set (Clients ?R'). n \<noteq> name}
         then map_option (offer ?nu) (client_heap ?sf a) else client_heap ?sf a)\<rparr>)"
    by (rule Broadcast_effect[OF rf fr dM okf])
  have run: "enterRoom J c name room s =
     (Returned (), ?sf\<lparr>client_heap := (\<lambda>a. if a \<in> snd ` {(n, c) \<in> set (Clients ?R'). n \<noteq> name}
         then map_option (offer ?nu) (client_heap ?sf a) else client_heap ?sf a)\<rparr>)"
    unfolding enterRoom_def
    apply (simp only: andThen_Returned[where m="modifyClient c (\<lambda>cl. cl\<lparr>Room := Some room\<rparr>)" and s=s, OF a])
    apply (simp only: andThen_Returned[where m="lockRoom room" and s="?sa", OF b])
    apply (simp only: andThen_Returned[where m="evictExisting room name" and s="?sb", OF c'])
    apply (simp only: andThen_Returned[where m="modifyClients room (AList.update name c)" and s="?sc", OF d'])
    apply (simp only: andThen_Returned[where m="unlockRoom room" and s="?sd", OF e'])
    apply (simp only: lock_get_unlock[OF re fr])
    apply (simp only: andThen_Returned[where m="send c ?ulR" and s="?se", OF g'])
    apply (rule h)
    done
  have rec: "snd ` {(n, x) \<in> set (Clients ?R'). n \<noteq> name} = snd ` {(n, x) \<in> set (Clients R). n \<noteq> name}"
    using setM by auto
  have ulM: "?ul = Marshal J [(''type'', JString ''user-list''),
       (''users'', JArray (map JString (filter (\<lambda>n. n \<noteq> name) (map fst (Clients R)))))]"
    by (simp only: names_without)
  have cnot: "c \<notin> snd ` {(n, x) \<in> set (Clients R). n \<noteq> name}"
    using fresh by force
  have enot: "e \<notin> snd ` {(n, x) \<in> set (Clients R). n \<noteq> name}"
    if "map_of (Clients R) name = Some e" for e
  proof -
    from that have "(name, e) \<in> set (Clients R)" by (rule map_of_SomeD)
    from recipient_iff[OF d this, of name] show ?thesis by simp
  qed
  have hf: "client_heap ?sf a =
      (if a = c then Some ?cl2
       else if map_of (Clients R) name = Some a then map_option closing (?h0 a)
       else ?h0 a)" for a
    by (auto split: option.splits)
  have heq: "(\<lambda>a. if a \<in> snd ` {(n, c) \<in> set (Clients ?R'). n \<noteq> name}
         then map_option (offer ?nu) (client_heap ?sf a) else client_heap ?sf a) =
     client_heap (joined J c cl name room R s)"
  proof (rule ext)
    fix a
    show "(if a \<in> snd ` {(n, c) \<in> set (Clients ?R'). n \<noteq> name}
         then map_option (offer ?nu) (client_heap ?sf a) else client_heap ?sf a) =
       client_heap (joined J c cl name room R s) a"
      unfolding rec hf ulM
      using cnot enot by (auto simp: joined_def split: option.splits)
  qed
  have "?sf\<lparr>client_heap := client_heap (joined J c cl name room R s)\<rparr> = joined J c cl name room R s"
    by (simp add: joined_def)
  with run heq show ?thesis by simp
qed

lemma members_ok_heap_upd:
  "c \<notin> snd ` set (Clients R) \<Longrightarrow> members_ok s R \<Longrightarrow>
   members_ok (s\<lparr>client_heap := (client_heap s)(c \<mapsto> x)\<rparr>) R"
  by (force simp: members_ok_def list_all_iff)

lemma members_ok_fresh:
  "members_ok s R \<Longrightarrow> client_heap s c = None \<Longrightarrow> c \<notin> snd ` set (Clients R)"
  by (force simp: members_ok_def list_all_iff)

lemma quiescent_room:
  assumes "quiescent s" and "map_of (Rooms (server s)) roomName = Some r"
  shows "roomAt s r = Some (room_heap s ! r) \<and> \<not> Room.Mutex (room_heap s ! r) \<and>
         members_ok s (room_heap s ! r)"
proof -
  from assms(2) have "(roomName, r) \<in> set (Rooms (server s))" by (rule map_of_SomeD)
  with assms(1) have v: "r < length (room_heap s)"
    by (auto simp: quiescent_def list_all_iff)
  then have "room_heap s ! r \<in> set (room_heap s)" by simp
  with assms(1) v show ?thesis
    by (auto simp: quiescent_def list_all_iff roomAt_def)
qed

lemma handleJoin_existing:
  assumes c: "client_heap s c = Some cl" "\<not> closed (Send cl)" "length (buf (Send cl)) < cap (Send cl)"
    and free: "\<not> Server.Mutex (server s)"
    and reg: "map_of (Rooms (server s)) roomName = Some room"
    and R: "roomAt s room = Some R" "\<not> Room.Mutex R" "members_ok s R"
    and fresh: "c \<notin> snd ` set (Clients R)"
  shows "handleJoin J c name roomName s =
     (Returned (), joined J c (cl\<lparr>Client.Name := name\<rparr>) name room R
        (s\<lparr>client_heap := (client_heap s)(c \<mapsto> cl\<lparr>Client.Name := name\<rparr>)\<rparr>))"
proof -
  let ?cl1 = "cl\<lparr>Client.Name := name\<rparr>"
  let ?s1 = "s\<lparr>client_heap := (client_heap s)(c \<mapsto> ?cl1)\<rparr>"
  have a: "modifyClient c (\<lambda>cl. cl\<lparr>Client.Name := name\<rparr>) s = (Returned (), ?s1)"
    using c(1) by (simp add: modifyClient_def)
  have g: "GetOrCreateRoom roomName ?s1 = (Returned room, ?s1)"
    using free reg by (simp add: GetOrCreateRoom_found)
  have e: "enterRoom J c name room ?s1 = (Returned (), joined J c ?cl1 name room R ?s1)"
  proof (rule enterRoom_effect)
    show "client_heap ?s1 c = Some ?cl1" by simp
    show "\<not> closed (Send ?cl1)" using c(2) by simp
    show "length (buf (Send ?cl1)) < cap (Send ?cl1)" using c(3) by simp
    show "roomAt ?s1 room = Some R" using R(1) by simp
    show "\<not> Room.Mutex R" by (rule R(2))
    show "members_ok ?s1 R" using fresh R(3) by (rule members_ok_heap_upd)
    show "c \<notin> snd ` set (Clients R)" by (rule fresh)
  qed
  show ?thesis
    unfolding handleJoin_def
    apply (simp only: andThen_Returned[where m="modifyClient c (\<lambda>cl. cl\<lparr>Client.Name := name\<rparr>)" and s=s, OF a])
    apply (simp only: andThen_Returned[where m="GetOrCreateRoom roomName" and s="?s1", OF g])
    apply (rule e)
    done
qed

lemma handleJoin_new:
  assumes c: "client_heap s c = Some cl" "\<not> closed (Send cl)" "length (buf (Send cl)) < cap (Send cl)"
    and free: "\<not> Server.Mutex (server s)"
    and reg: "map_of (Rooms (server s)) roomName = None"
  shows "handleJoin J c name roomName s =
     (Returned (), joined J c (cl\<lparr>Client.Name := name\<rparr>) name (length (room_heap s))
        \<lparr>Room.Name = roomName, Clients = [], Mutex = False\<rparr>
        (s\<lparr>client_heap := (client_heap s)(c \<mapsto> cl\<lparr>Client.Name := name\<rparr>),
           room_heap := room_heap s @ [\<lparr>Room.Name = roomName, Clients = [], Mutex = False\<rparr>],
           server := (server s)\<lparr>Rooms := AList.update roomName (length (room_heap s)) (Rooms (server s))\<rparr>\<rparr>))"
proof -
  let ?cl1 = "cl\<lparr>Client.Name := name\<rparr>"
  let ?s1 = "s\<lparr>client_heap := (client_heap s)(c \<mapsto> ?cl1)\<rparr>"
  let ?new = "\<lparr>Room.Name = roomName, Clients = [], Mutex = False\<rparr>"
  let ?room = "length (room_heap s)"
  let ?s2 = "s\<lparr>client_heap := (client_heap s)(c \<mapsto> ?cl1),
           room_heap := room_heap s @ [?new],
           server := (server s)\<lparr>Rooms := AList.update roomName ?room (Rooms (server s))\<rparr>\<rparr>"
  have a: "modifyClient c (\<lambda>cl. cl\<lparr>Client.Name := name\<rparr>) s = (Returned (), ?s1)"
    using c(1) by (simp add: modifyClient_def)
  have g: "GetOrCreateRoom roomName ?s1 = (Returned ?room, ?s2)"
    using free reg by (simp add: GetOrCreateRoom_new)
  have e: "enterRoom J c name ?room ?s2 = (Returned (), joined J c ?cl1 name ?room ?new ?s2)"
  proof (rule enterRoom_effect)
    show "client_heap ?s2 c = Some ?cl1" by simp
    show "\<not> closed (Send ?cl1)" using c(2) by simp
    show "length (buf (Send ?cl1)) < cap (Send ?cl1)" using c(3) by simp
    show "roomAt ?s2 ?room = Some ?new" by (simp add: roomAt_def)
    show "\<not> Room.Mutex ?new" by simp
    show "members_ok ?s2 ?new" by (simp add: members_ok_def)
    show "c \<notin> snd ` set (Clients ?new)" by simp
  qed
  show ?thesis
    unfolding handleJoin_def
    apply (simp only: andThen_Returned[where m="modifyClient c (\<lambda>cl. cl\<lparr>Client.Name := name\<rparr>)" and s=s, OF a])
    apply (simp only: andThen_Returned[where m="GetOrCreateRoom roomName" and s="?s1", OF g])
    apply (rule e)
    done
qed

lemma joinLoop_skip:
  assumes "client_heap s c = Some cl" and "\<not> isClosed (Socket cl)"
    and "\<forall>m \<in> set pre. \<not> valid_join J m"
  shows "joinLoop J c (pre @ frames) s = joinLoop J c frames s"
  using assms(3)
proof (induction pre)
  case Nil
  then show ?case by simp
next
  case (Cons m pre)
  then have "\<not> valid_join J m" and IH: "joinLoop J c (pre @ frames) s = joinLoop J c frames s"
    by simp_all
  then show ?case
    using assms(1,2) by (auto simp: valid_join_def Let_def split: option.splits)
qed

lemma joinLoop_join:
  assumes "client_heap s c = Some cl" and "\<not> isClosed (Socket cl)"
    and "Unmarshal J message = Some data" and "asString (data ''type'') = ''join''"
    and "asString (data ''name'') \<noteq> []" and "asString (data ''room'') \<noteq> []"
  shows "joinLoop J c (message # rest) s =
     andThen (handleJoin J c (asString (data ''name'')) (asString (data ''room'')))
       (\<lambda>_ s'. (Returned (Some rest), s')) s"
  using assms by (simp add: Let_def)

lemma joinLoop_end:
  "client_heap s c = Some cl \<Longrightarrow>
   joinLoop J c [] s = (Returned None, s\<lparr>client_heap := (client_heap s)(c \<mapsto> closing cl)\<rparr>)"
  by (simp add: andThen_def closeSocket_def closing_def)

lemma handleWebSocket_rejects:
  assumes "\<forall>m \<in> set frames. \<not> valid_join J m"
  shows "handleWebSocket J socket frames s =
        (Returned None, s\<lparr>client_heap := (client_heap s)(socket \<mapsto> closing newClient)\<rparr>)"
proof -
  let ?s0 = "s\<lparr>client_heap := (client_heap s)(socket \<mapsto> newClient)\<rparr>"
  have c: "client_heap ?s0 socket = Some newClient" by simp
  have o: "\<not> isClosed (Socket newClient)" by (simp add: newClient_def)
  from joinLoop_skip[OF c o assms, of "[]"]
  have "joinLoop J socket frames ?s0 = joinLoop J socket [] ?s0" by simp
  also have "\<dots> = (Returned None, ?s0\<lparr>client_heap := (client_heap ?s0)(socket \<mapsto> closing newClient)\<rparr>)"
    using c by (rule joinLoop_end)
  finally show ?thesis by (simp add: handleWebSocket_def)
qed

lemma joined_room:
  "roomAt s room = Some R \<Longrightarrow>
   roomAt (joined J c cl name room R s) room =
     Some (R\<lparr>Clients := AList.update name c (AList.delete name (Clients R))\<rparr>)"
  by (frule roomAt_valid) (simp add: joined_def)

lemma joined_server: "server (joined J c cl name room R s) = server s"
  by (simp add: joined_def)

lemma joined_self:
  "client_heap (joined J c cl name room R s) c =
     Some (cl\<lparr>Room := Some room,
        Send := (Send cl)\<lparr>buf := buf (Send cl) @
          [Marshal J [(''type'', JString ''user-list''),
             (''users'', JArray (map JString
                (filter (\<lambda>n. n \<noteq> name)
                   (map fst (AList.update name c (AList.delete name (Clients R)))))))]]\<rparr>\<rparr>)"
  by (simp add: joined_def names_without)

lemma joined_other:
  assumes ok: "members_ok s R" and fresh: "c \<notin> snd ` set (Clients R)"
    and mem: "(n, a) \<in> set (AList.update name c (AList.delete name (Clients R)))" and n: "n \<noteq> name"
  shows "\<exists>acl. client_heap s a = Some acl \<and>
     client_heap (joined J c cl name room R s) a =
       Some (offer (Marshal J [(''type'', JString ''new-user''), (''name'', JString name)]) acl)"
proof -
  from mem n have m: "(n, a) \<in> set (Clients R)" by (auto simp: entries_after_join)
  with members_ok_open[OF ok] obtain acl where acl: "client_heap s a = Some acl" by auto
  from ok have d: "distinct (map snd (Clients R))" by (simp add: members_ok_def)
  from m fresh have ac: "a \<noteq> c" by force
  have ne: "map_of (Clients R) name \<noteq> Some a"
  proof
    assume "map_of (Clients R) name = Some a"
    then have "(name, a) \<in> set (Clients R)" by (rule map_of_SomeD)
    from distinct_snd_unique[OF d this m] n show False by simp
  qed
  have "a \<in> snd ` {(n, x) \<in> set (Clients R). n \<noteq> name}"
    using recipient_iff[OF d m, of name] n by simp
  then show ?thesis using acl ac ne by (simp add: joined_def)
qed

lemma joined_evicted:
  assumes ok: "members_ok s R" and fresh: "c \<notin> snd ` set (Clients R)"
    and e: "map_of (Clients R) name = Some e"
  shows "\<exists>ecl. client_heap s e = Some ecl \<and>
     client_heap (joined J c cl name room R s) e = Some (closing ecl)"
proof -
  from e have m: "(name, e) \<in> set (Clients R)" by (rule map_of_SomeD)
  with members_ok_open[OF ok] obtain ecl where ecl: "client_heap s e = Some ecl" by auto
  from m fresh have "e \<noteq> c" by force
  then show ?thesis using ecl e by (simp add: joined_def)
qed

lemma members_ok_transfer:
  assumes "members_ok s X"
    and "\<And>a acl. client_heap s a = Some acl \<Longrightarrow> \<not> closed (Send acl) \<Longrightarrow>
           \<exists>acl'. client_heap s' a = Some acl' \<and> \<not> closed (Send acl')"
  shows "members_ok s' X"
proof -
  have "\<exists>cl. client_heap s' c = Some cl \<and> \<not> closed (Send cl)"
    if "(n, c) \<in> set (Clients X)" for n c
  proof -
    from members_ok_open[OF assms(1)] that obtain acl
      where "client_heap s c = Some acl" "\<not> closed (Send acl)" by auto
    then show ?thesis by (rule assms(2))
  qed
  then show ?thesis
    using assms(1) by (fastforce simp: members_ok_def list_all_iff)
qed

lemma joined_heap_open:
  assumes "\<not> closed (Send cl)" and "client_heap s a = Some acl" and "\<not> closed (Send acl)"
  shows "\<exists>acl'. client_heap (joined J c cl name room R s) a = Some acl' \<and> \<not> closed (Send acl')"
  using assms by (simp add: joined_def closing_def offer_def)

lemma joined_quiescent:
  assumes q: "quiescent s" and R: "roomAt s room = Some R"
    and c: "\<not> closed (Send cl)"
    and fresh: "c \<notin> snd ` set (Clients R)"
  shows "quiescent (joined J c cl name room R s)"
proof -
  let ?s' = "joined J c cl name room R s"
  let ?D = "AList.delete name (Clients R)"
  let ?M = "AList.update name c ?D"
  let ?R' = "R\<lparr>Clients := ?M\<rparr>"
  have v: "room < length (room_heap s)" using R by (rule roomAt_valid)
  then have Rin: "R \<in> set (room_heap s)" using R by (auto simp: roomAt_def)
  have heap: "room_heap ?s' = (room_heap s)[room := ?R']" by (simp add: joined_def setRoom_def)
  have 1: "\<not> Server.Mutex (server ?s')" using q by (simp add: joined_server quiescent_def)
  have 2: "list_all (\<lambda>(n, r). r < length (room_heap ?s')) (Rooms (server ?s'))"
    using q by (simp add: joined_server quiescent_def heap)
  have okR: "members_ok s R" and frR: "\<not> Room.Mutex R"
    using q Rin by (auto simp: quiescent_def list_all_iff)
  have tr: "members_ok ?s' X" if "members_ok s X" for X
    using that by (rule members_ok_transfer) (rule joined_heap_open[OF c])
  have M: "?M = ?D @ [(name, c)]"
    by (rule update_absent) (simp add: delete_conv')
  have okR': "members_ok ?s' ?R'"
  proof -
    from okR have d1: "distinct (map fst (Clients R))" and d2: "distinct (map snd (Clients R))"
      by (simp_all add: members_ok_def)
    have a: "distinct (map fst ?M)" using d1 by (simp add: distinct_update distinct_delete)
    have "distinct (map snd ?D)" using d2 by (simp add: AList.delete_eq distinct_map_filter)
    moreover have "c \<notin> snd ` set ?D" using fresh by (auto simp: AList.delete_eq)
    ultimately have b: "distinct (map snd ?M)" by (simp add: M)
    have "\<exists>xcl. client_heap ?s' x = Some xcl \<and> \<not> closed (Send xcl)"
      if "(n, x) \<in> set ?M" for n x
    proof (cases "x = c")
      case True
      then show ?thesis using c by (simp add: joined_def)
    next
      case False
      with that have "(n, x) \<in> set (Clients R)" by (auto simp: entries_after_join)
      with members_ok_open[OF okR] obtain xcl where "client_heap s x = Some xcl" "\<not> closed (Send xcl)"
        by auto
      then show ?thesis by (rule joined_heap_open[OF c])
    qed
    then show ?thesis using a b by (fastforce simp: members_ok_def list_all_iff)
  qed
  have 3: "\<not> Room.Mutex X \<and> members_ok ?s' X" if "X \<in> set (room_heap ?s')" for X
  proof -
    from that have "X = ?R' \<or> X \<in> set (room_heap s)"
      unfolding heap by (auto dest: set_update_subset_insert[THEN subsetD])
    then show ?thesis
    proof
      assume "X = ?R'"
      then show ?thesis using okR' frR by simp
    next
      assume "X \<in> set (room_heap s)"
      with q have "\<not> Room.Mutex X" "members_ok s X" by (auto simp: quiescent_def list_all_iff)
      then show ?thesis using tr by simp
    qed
  qed
  show ?thesis
    unfolding quiescent_def using 1 2 3 by (simp add: list_all_iff)
qed

lemma quiescent_new_client:
  assumes "quiescent s" and "client_heap s c = None"
  shows "quiescent (s\<lparr>client_heap := (client_heap s)(c \<mapsto> x)\<rparr>)"
proof -
  have "members_ok (s\<lparr>client_heap := (client_heap s)(c \<mapsto> x)\<rparr>) X" if "members_ok s X" for X
    using members_ok_fresh[OF that assms(2)] that by (rule members_ok_heap_upd)
  then show ?thesis using assms(1) by (auto simp: quiescent_def list_all_iff)
qed

lemma quiescent_set_client:
  assumes "quiescent s" and "\<not> closed (Send x)"
  shows "quiescent (s\<lparr>client_heap := (client_heap s)(c \<mapsto> x)\<rparr>)"
proof -
  have "members_ok (s\<lparr>client_heap := (client_heap s)(c \<mapsto> x)\<rparr>) X" if "members_ok s X" for X
    using that by (rule members_ok_transfer) (use assms(2) in auto)
  then show ?thesis using assms(1) by (auto simp: quiescent_def list_all_iff)
qed

lemma quiescent_new_room:
  assumes "quiescent s" and "map_of (Rooms (server s)) roomName = None"
  shows "quiescent (s\<lparr>room_heap := room_heap s @ [\<lparr>Room.Name = roomName, Clients = [], Mutex = False\<rparr>],
           server := (server s)\<lparr>Rooms := AList.update roomName (length (room_heap s)) (Rooms (server s))\<rparr>\<rparr>)"
proof -
  let ?s' = "s\<lparr>room_heap := room_heap s @ [\<lparr>Room.Name = roomName, Clients = [], Mutex = False\<rparr>],
           server := (server s)\<lparr>Rooms := AList.update roomName (length (room_heap s)) (Rooms (server s))\<rparr>\<rparr>"
  have "members_ok ?s' X" if "members_ok s X" for X
    using that by (simp add: members_ok_def)
  moreover have "members_ok ?s' \<lparr>Room.Name = roomName, Clients = [], Mutex = False\<rparr>"
    by (simp add: members_ok_def)
  ultimately show ?thesis
    using assms(1) by (auto simp: quiescent_def list_all_iff update_absent[OF assms(2)])
qed

lemma handleWebSocket_join:
  assumes q: "quiescent s" and new: "client_heap s socket = None"
    and pre: "\<forall>m \<in> set pre. \<not> valid_join J m"
    and msg: "Unmarshal J message = Some data" "asString (data ''type'') = ''join''"
      "asString (data ''name'') = name" "name \<noteq> []"
      "asString (data ''room'') = roomName" "roomName \<noteq> []"
  shows "\<exists>room R s1.
     handleWebSocket J socket (pre @ message # rest) s =
       (Returned (Some rest), joined J socket (newClient\<lparr>Client.Name := name\<rparr>) name room R s1) \<and>
     map_of (Rooms (server s1)) roomName = Some room \<and> roomAt s1 room = Some R \<and>
     Clients R = members_before s roomName \<and> members_ok s1 R \<and>
     socket \<notin> snd ` set (Clients R) \<and>
     (\<forall>a. a \<noteq> socket \<longrightarrow> client_heap s1 a = client_heap s a) \<and>
     (\<forall>r R0. roomAt s r = Some R0 \<longrightarrow> roomAt s1 r = Some R0) \<and>
     quiescent s1"
proof -
  let ?s0 = "s\<lparr>client_heap := (client_heap s)(socket \<mapsto> newClient)\<rparr>"
  let ?cl1 = "newClient\<lparr>Client.Name := name\<rparr>"
  have c: "client_heap ?s0 socket = Some newClient" by simp
  have o: "\<not> isClosed (Socket newClient)" "\<not> closed (Send newClient)"
    "length (buf (Send newClient)) < cap (Send newClient)"
    by (simp_all add: newClient_def)
  have free: "\<not> Server.Mutex (server ?s0)" using q by (simp add: quiescent_def)
  have q0: "quiescent ?s0" using q new by (rule quiescent_new_client)
  have q1: "quiescent (?s0\<lparr>client_heap := (client_heap ?s0)(socket \<mapsto> ?cl1)\<rparr>)"
    using q0 by (rule quiescent_set_client) (simp add: newClient_def)
  have "handleWebSocket J socket (pre @ message # rest) s = joinLoop J socket (message # rest) ?s0"
    using joinLoop_skip[OF c o(1) pre] by (simp add: handleWebSocket_def)
  also have "\<dots> = andThen (handleJoin J socket name roomName) (\<lambda>_ s'. (Returned (Some rest), s')) ?s0"
    using joinLoop_join[OF c o(1) msg(1,2)] msg(3-6) by simp
  finally have run: "handleWebSocket J socket (pre @ message # rest) s =
     andThen (handleJoin J socket name roomName) (\<lambda>_ s'. (Returned (Some rest), s')) ?s0" .
  show ?thesis
  proof (cases "map_of (Rooms (server s)) roomName")
    case None
    let ?new = "\<lparr>Room.Name = roomName, Clients = [], Mutex = False\<rparr>"
    let ?room = "length (room_heap s)"
    let ?s1 = "?s0\<lparr>client_heap := (client_heap ?s0)(socket \<mapsto> ?cl1),
           room_heap := room_heap ?s0 @ [?new],
           server := (server ?s0)\<lparr>Rooms := AList.update roomName (length (room_heap ?s0)) (Rooms (server ?s0))\<rparr>\<rparr>"
    from None have reg: "map_of (Rooms (server ?s0)) roomName = None" by simp
    have hj: "handleJoin J socket name roomName ?s0 =
       (Returned (), joined J socket ?cl1 name (length (room_heap ?s0)) ?new ?s1)"
      by (rule handleJoin_new[OF c o(2,3) free reg])
    have 1: "handleWebSocket J socket (pre @ message # rest) s =
       (Returned (Some rest), joined J socket ?cl1 name ?room ?new ?s1)"
      using run hj by (simp add: andThen_def)
    have 2: "map_of (Rooms (server ?s1)) roomName = Some ?room" by (simp add: update_conv')
    have 3: "roomAt ?s1 ?room = Some ?new" by (simp add: roomAt_def)
    have 4: "Clients ?new = members_before s roomName" using None by (simp add: members_before_def)
    have 5: "members_ok ?s1 ?new" by (simp add: members_ok_def)
    have 6: "socket \<notin> snd ` set (Clients ?new)" by simp
    have 7: "\<forall>a. a \<noteq> socket \<longrightarrow> client_heap ?s1 a = client_heap s a" by simp
    have 8: "\<forall>r R0. roomAt s r = Some R0 \<longrightarrow> roomAt ?s1 r = Some R0"
      by (auto simp: roomAt_def nth_append split: if_splits)
    have 9: "quiescent ?s1"
      using quiescent_new_room[OF q1, of roomName] reg by simp
    from 1 2 3 4 5 6 7 8 9 show ?thesis by blast
  next
    case (Some room)
    let ?R = "room_heap s ! room"
    let ?s1 = "?s0\<lparr>client_heap := (client_heap ?s0)(socket \<mapsto> ?cl1)\<rparr>"
    from quiescent_room[OF q Some] have R: "roomAt s room = Some ?R" "\<not> Room.Mutex ?R" "members_ok s ?R"
      by simp_all
    have fresh: "socket \<notin> snd ` set (Clients ?R)" using R(3) new by (rule members_ok_fresh)
    have reg: "map_of (Rooms (server ?s0)) roomName = Some room" using Some by simp
    have R0: "roomAt ?s0 room = Some ?R" using R(1) by simp
    have ok0: "members_ok ?s0 ?R" using fresh R(3) by (rule members_ok_heap_upd)
    have hj: "handleJoin J socket name roomName ?s0 =
       (Returned (), joined J socket ?cl1 name room ?R ?s1)"
      by (rule handleJoin_existing[OF c o(2,3) free reg R0 R(2) ok0 fresh])
    have 1: "handleWebSocket J socket (pre @ message # rest) s =
       (Returned (Some rest), joined J socket ?cl1 name room ?R ?s1)"
      using run hj by (simp add: andThen_def)
    have 2: "map_of (Rooms (server ?s1)) roomName = Some room" using Some by simp
    have 3: "roomAt ?s1 room = Some ?R" using R(1) by simp
    have 4: "Clients ?R = members_before s roomName" using Some by (simp add: members_before_def)
    have 5: "members_ok ?s1 ?R"
      using members_ok_heap_upd[OF fresh ok0, of ?cl1] by simp
    have 7: "\<forall>a. a \<noteq> socket \<longrightarrow> client_heap ?s1 a = client_heap s a" by simp
    have 8: "\<forall>r R0. roomAt s r = Some R0 \<longrightarrow> roomAt ?s1 r = Some R0" by simp
    have 9: "quiescent ?s1" using q1 by simp
    from 1 2 3 4 5 fresh 7 8 9 show ?thesis by blast
  qed
qed

lemma handleWebSocket_quiescent:
  assumes q: "quiescent s" and new: "client_heap s socket = None"
  shows "quiescent (snd (handleWebSocket J socket frames s))"
proof (cases "\<forall>m \<in> set frames. \<not> valid_join J m")
  case True
  have "quiescent (s\<lparr>client_heap := (client_heap s)(socket \<mapsto> closing newClient)\<rparr>)"
    using q new by (rule quiescent_new_client)
  then show ?thesis by (simp add: handleWebSocket_rejects[OF True])
next
  case False
  then have "\<exists>m \<in> set frames. valid_join J m" by simp
  from split_list_first_prop[OF this] obtain pre message rest where
    f: "frames = pre @ message # rest" and m: "valid_join J message"
    and pre: "\<forall>m \<in> set pre. \<not> valid_join J m"
    by blast
  from m obtain data where d: "Unmarshal J message = Some data"
    "asString (data ''type'') = ''join''" "asString (data ''name'') \<noteq> []"
    "asString (data ''room'') \<noteq> []"
    by (auto simp: valid_join_def split: option.splits)
  from handleWebSocket_join[OF q new pre d(1,2) refl d(3) refl d(4), of rest]
  obtain room R s1 where
    run: "handleWebSocket J socket (pre @ message # rest) s =
       (Returned (Some rest),
        joined J socket (newClient\<lparr>Client.Name := asString (data ''name'')\<rparr>)
          (asString (data ''name'')) room R s1)"
    and R: "roomAt s1 room = Some R" and fresh: "socket \<notin> snd ` set (Clients R)"
    and q1: "quiescent s1"
    by blast
  have "quiescent (joined J socket (newClient\<lparr>Client.Name := asString (data ''name'')\<rparr>)
          (asString (data ''name'')) room R s1)"
    using q1 R _ fresh by (rule joined_quiescent) (simp add: newClient_def)
  then show ?thesis by (simp add: f run)
qed

lemma quiescent_initial: "quiescent initial"
  by (simp add: quiescent_def initial_def)

lemma quiescent_demo: "quiescent demo_state"
  by (simp add: quiescent_def members_ok_def demo_state_def demo_room_def demo_client_def)

lemma members_before_demo: "members_before demo_state ''lobby'' = [(''A'', 1), (''B'', 2), (''C'', 3)]"
  by (simp add: members_before_def demo_state_def demo_room_def)

text \<open>
  C7. A connection is admitted only through a message that decodes to an object whose type
  is the string ``join'' and whose name and room are non-empty strings: if the handler
  admits the client, one of the messages read was such a join; and if none of the messages
  the peer sends before its connection fails is such a join, the handler returns without
  admitting anybody, the registry and every room are what they were, and the only change
  is the new client object with its socket closed.
\<close>

theorem admitted_only_by_valid_join:
  "((\<exists>rest s'. handleWebSocket J socket frames s = (Returned (Some rest), s')) \<longrightarrow>
      (\<exists>m \<in> set frames. valid_join J m)) \<and>
   ((\<forall>m \<in> set frames. \<not> valid_join J m) \<longrightarrow>
      handleWebSocket J socket frames s =
        (Returned None, s\<lparr>client_heap := (client_heap s)(socket \<mapsto> closing newClient)\<rparr>))"
  using handleWebSocket_rejects[of frames J socket s] by fastforce

theorem admitted_only_by_valid_join_witness:
  "\<not> valid_join demo_json ping_msg \<and> \<not> valid_join demo_json join_unnamed \<and>
   \<not> valid_join demo_json ''garbage'' \<and>
   handleWebSocket demo_json 4 [ping_msg, join_unnamed, ''garbage''] demo_state =
     (Returned None, demo_state\<lparr>client_heap := (client_heap demo_state)(4 \<mapsto> closing newClient)\<rparr>)"
proof -
  have h: "\<forall>m \<in> set [ping_msg, join_unnamed, ''garbage'']. \<not> valid_join demo_json m"
    by (simp add: valid_join_def asString_def)
  with admitted_only_by_valid_join[of demo_json 4 "[ping_msg, join_unnamed, ''garbage'']" demo_state]
  show ?thesis by simp
qed

text \<open>
  C1. In a quiescent state a new connection sends messages that the join loop ignores and
  then a valid join for \<open>name\<close> and \<open>roomName\<close>. The handler returns with the client
  admitted: the room registered under \<open>roomName\<close> maps \<open>name\<close> to the client and keeps
  the entries of all other names; the client's own queue holds one message, the user list
  made of exactly the names in the room other than \<open>name\<close>; and every member under
  another name has been offered the new-user message carrying \<open>name\<close> (appended to its
  queue, or dropped if that queue was full), which the client itself has not received.
\<close>

theorem join_sends_user_list_then_new_user:
  assumes "quiescent s" and "client_heap s socket = None"
    and "\<forall>m \<in> set pre. \<not> valid_join J m"
    and "Unmarshal J message = Some data" and "asString (data ''type'') = ''join''"
    and "asString (data ''name'') = name" and "name \<noteq> []"
    and "asString (data ''room'') = roomName" and "roomName \<noteq> []"
  shows "\<exists>s' room R'.
     handleWebSocket J socket (pre @ message # rest) s = (Returned (Some rest), s') \<and>
     map_of (Rooms (server s')) roomName = Some room \<and> roomAt s' room = Some R' \<and>
     Clients R' = AList.update name socket (AList.delete name (members_before s roomName)) \<and>
     client_heap s' socket =
       Some \<lparr>Client.Name = name, Socket = \<lparr>isClosed = False\<rparr>,
             Send = \<lparr>buf = [Marshal J [(''type'', JString ''user-list''),
                              (''users'', JArray (map JString
                                 (filter (\<lambda>n. n \<noteq> name) (map fst (Clients R')))))]],
                     cap = 256, closed = False\<rparr>,
             Room = Some room\<rparr> \<and>
     (\<forall>(n, a) \<in> set (Clients R'). n \<noteq> name \<longrightarrow>
        (\<exists>cl. client_heap s a = Some cl \<and>
           client_heap s' a =
             Some (cl\<lparr>Send := (Send cl)\<lparr>buf :=
               (if length (buf (Send cl)) < cap (Send cl)
                then buf (Send cl) @
                       [Marshal J [(''type'', JString ''new-user''), (''name'', JString name)]]
                else buf (Send cl))\<rparr>\<rparr>)))"
proof -
  from handleWebSocket_join[OF assms, of rest]
  obtain room R s1 where
    run: "handleWebSocket J socket (pre @ message # rest) s =
       (Returned (Some rest), joined J socket (newClient\<lparr>Client.Name := name\<rparr>) name room R s1)"
    and reg: "map_of (Rooms (server s1)) roomName = Some room"
    and R: "roomAt s1 room = Some R"
    and before: "Clients R = members_before s roomName"
    and ok: "members_ok s1 R"
    and fresh: "socket \<notin> snd ` set (Clients R)"
    and same: "\<forall>a. a \<noteq> socket \<longrightarrow> client_heap s1 a = client_heap s a"
    by blast
  let ?s' = "joined J socket (newClient\<lparr>Client.Name := name\<rparr>) name room R s1"
  let ?R' = "R\<lparr>Clients := AList.update name socket (AList.delete name (Clients R))\<rparr>"
  let ?nu = "Marshal J [(''type'', JString ''new-user''), (''name'', JString name)]"
  have 2: "map_of (Rooms (server ?s')) roomName = Some room"
    using reg by (simp add: joined_server)
  have 3: "roomAt ?s' room = Some ?R'" using R by (rule joined_room)
  have 4: "Clients ?R' = AList.update name socket (AList.delete name (members_before s roomName))"
    using before by simp
  have 5: "client_heap ?s' socket =
       Some \<lparr>Client.Name = name, Socket = \<lparr>isClosed = False\<rparr>,
             Send = \<lparr>buf = [Marshal J [(''type'', JString ''user-list''),
                              (''users'', JArray (map JString
                                 (filter (\<lambda>n. n \<noteq> name) (map fst (Clients ?R')))))]],
                     cap = 256, closed = False\<rparr>,
             Room = Some room\<rparr>"
    by (simp add: joined_self newClient_def)
  have 6: "\<exists>cl. client_heap s a = Some cl \<and>
           client_heap ?s' a =
             Some (cl\<lparr>Send := (Send cl)\<lparr>buf :=
               (if length (buf (Send cl)) < cap (Send cl)
                then buf (Send cl) @ [?nu] else buf (Send cl))\<rparr>\<rparr>)"
    if mem: "(n, a) \<in> set (Clients ?R')" and n: "n \<noteq> name" for n a
  proof -
    from mem have m: "(n, a) \<in> set (AList.update name socket (AList.delete name (Clients R)))"
      by simp
    from joined_other[OF ok fresh m n, of J "newClient\<lparr>Client.Name := name\<rparr>" room]
    obtain acl where acl: "client_heap s1 a = Some acl" "client_heap ?s' a = Some (offer ?nu acl)"
      by blast
    from m n have "(n, a) \<in> set (Clients R)" by (auto simp: entries_after_join)
    with fresh have "a \<noteq> socket" by force
    with same acl(1) have "client_heap s a = Some acl" by simp
    with acl(2) show ?thesis by (simp add: offer_def)
  qed
  show ?thesis
  proof (intro exI conjI)
    show "handleWebSocket J socket (pre @ message # rest) s = (Returned (Some rest), ?s')"
      by (rule run)
    show "map_of (Rooms (server ?s')) roomName = Some room" by (rule 2)
    show "roomAt ?s' room = Some ?R'" by (rule 3)
    show "Clients ?R' = AList.update name socket (AList.delete name (members_before s roomName))"
      by (rule 4)
    show "client_heap ?s' socket =
       Some \<lparr>Client.Name = name, Socket = \<lparr>isClosed = False\<rparr>,
             Send = \<lparr>buf = [Marshal J [(''type'', JString ''user-list''),
                              (''users'', JArray (map JString
                                 (filter (\<lambda>n. n \<noteq> name) (map fst (Clients ?R')))))]],
                     cap = 256, closed = False\<rparr>,
             Room = Some room\<rparr>"
      by (rule 5)
    show "\<forall>(n, a) \<in> set (Clients ?R'). n \<noteq> name \<longrightarrow>
        (\<exists>cl. client_heap s a = Some cl \<and>
           client_heap ?s' a =
             Some (cl\<lparr>Send := (Send cl)\<lparr>buf :=
               (if length (buf (Send cl)) < cap (Send cl)
                then buf (Send cl) @ [?nu] else buf (Send cl))\<rparr>\<rparr>))"
      using 6 by blast
  qed
qed

theorem join_sends_user_list_then_new_user_witness:
  "quiescent demo_state \<and> client_heap demo_state 4 = None \<and>
   \<not> valid_join demo_json ping_msg \<and>
   Unmarshal demo_json join_D =
     Some (map_of [(''type'', JString ''join''), (''name'', JString ''D''), (''room'', JString ''lobby'')]) \<and>
   (\<exists>s'. handleWebSocket demo_json 4 [ping_msg, join_D, leave_msg] demo_state
            = (Returned (Some [leave_msg]), s') \<and>
      map_option (\<lambda>cl. buf (Send cl)) (client_heap s' 4) = Some [''type=user-list;users=A,B,C,;''] \<and>
      client_heap s' 1 = Some (demo_client ''A'' [''type=new-user;name=D;'']) \<and>
      client_heap s' 2 = Some (demo_client ''B'' (replicate 256 ''x'')) \<and>
      client_heap s' 3 = Some (demo_client ''C'' [''type=new-user;name=D;'']))"
proof -
  let ?d = "map_of [(''type'', JString ''join''), (''name'', JString ''D''), (''room'', JString ''lobby'')]"
  have h2: "client_heap demo_state 4 = None" by (simp add: demo_state_def)
  have h3: "\<forall>m \<in> set [ping_msg]. \<not> valid_join demo_json m"
    by (simp add: valid_join_def asString_def)
  have h4: "Unmarshal demo_json join_D = Some ?d" by simp
  have h5: "asString (?d ''type'') = ''join''" "asString (?d ''name'') = ''D''" "''D'' \<noteq> []"
    "asString (?d ''room'') = ''lobby''" "''lobby'' \<noteq> []"
    by (simp_all add: asString_def)
  from join_sends_user_list_then_new_user[OF quiescent_demo h2 h3 h4 h5, of "[leave_msg]",
      unfolded append.simps]
  obtain s' room R' where all:
    "handleWebSocket demo_json 4 [ping_msg, join_D, leave_msg] demo_state = (Returned (Some [leave_msg]), s') \<and>
     map_of (Rooms (server s')) ''lobby'' = Some room \<and> roomAt s' room = Some R' \<and>
     Clients R' = AList.update ''D'' 4 (AList.delete ''D'' (members_before demo_state ''lobby'')) \<and>
     client_heap s' 4 =
       Some \<lparr>Client.Name = ''D'', Socket = \<lparr>isClosed = False\<rparr>,
             Send = \<lparr>buf = [Marshal demo_json [(''type'', JString ''user-list''),
                              (''users'', JArray (map JString
                                 (filter (\<lambda>n. n \<noteq> ''D'') (map fst (Clients R')))))]],
                     cap = 256, closed = False\<rparr>,
             Room = Some room\<rparr> \<and>
     (\<forall>(n, a) \<in> set (Clients R'). n \<noteq> ''D'' \<longrightarrow>
        (\<exists>cl. client_heap demo_state a = Some cl \<and>
           client_heap s' a =
             Some (cl\<lparr>Send := (Send cl)\<lparr>buf :=
               (if length (buf (Send cl)) < cap (Send cl)
                then buf (Send cl) @
                       [Marshal demo_json [(''type'', JString ''new-user''), (''name'', JString ''D'')]]
                else buf (Send cl))\<rparr>\<rparr>)))"
    by (elim exE) (erule that)
  note run = all[THEN conjunct1]
  note M = all[THEN conjunct2, THEN conjunct2, THEN conjunct2, THEN conjunct1]
  note self = all[THEN conjunct2, THEN conjunct2, THEN conjunct2, THEN conjunct2, THEN conjunct1]
  note others = all[THEN conjunct2, THEN conjunct2, THEN conjunct2, THEN conjunct2, THEN conjunct2]
  have M': "Clients R' = [(''A'', 1), (''B'', 2), (''C'', 3), (''D'', 4)]"
    using M by (simp add: members_before_demo AList.delete_eq)
  have 4: "map_option (\<lambda>cl. buf (Send cl)) (client_heap s' 4) = Some [''type=user-list;users=A,B,C,;'']"
    by (simp add: self M' demo_json_def)
  have o: "\<exists>cl. client_heap demo_state a = Some cl \<and>
           client_heap s' a =
             Some (cl\<lparr>Send := (Send cl)\<lparr>buf :=
               (if length (buf (Send cl)) < cap (Send cl)
                then buf (Send cl) @
                       [Marshal demo_json [(''type'', JString ''new-user''), (''name'', JString ''D'')]]
                else buf (Send cl))\<rparr>\<rparr>)"
    if "(n, a) \<in> set (Clients R')" and "n \<noteq> ''D''" for n a
    using others that by blast
  have nu: "Marshal demo_json [(''type'', JString ''new-user''), (''name'', JString ''D'')]
      = ''type=new-user;name=D;''"
    by (simp add: demo_json_def)
  have 1: "client_heap s' 1 = Some (demo_client ''A'' [''type=new-user;name=D;''])"
    using o[of "''A''" 1] unfolding nu by (simp add: M' demo_state_def demo_client_def)
  have 2: "client_heap s' 2 = Some (demo_client ''B'' (replicate 256 ''x''))"
    using o[of "''B''" 2] unfolding nu by (simp add: M' demo_state_def demo_client_def)
  have 3: "client_heap s' 3 = Some (demo_client ''C'' [''type=new-user;name=D;''])"
    using o[of "''C''" 3] unfolding nu by (simp add: M' demo_state_def demo_client_def)
  from quiescent_demo h2 h3 h4 run 1 2 3 4 show ?thesis by (simp add: valid_join_def asString_def)
qed

text \<open>
  C2. If the room already maps \<open>name\<close> to a client when the join arrives, the handler
  closes that client's socket and removes its entry; afterwards the room has exactly one
  entry for \<open>name\<close>, it is the new client, and the earlier client is registered under no
  name of the room.
\<close>

theorem same_name_join_evicts_existing:
  assumes "quiescent s" and "client_heap s socket = None"
    and "\<forall>m \<in> set pre. \<not> valid_join J m"
    and "Unmarshal J message = Some data" and "asString (data ''type'') = ''join''"
    and "asString (data ''name'') = name" and "name \<noteq> []"
    and "asString (data ''room'') = roomName" and "roomName \<noteq> []"
    and "map_of (members_before s roomName) name = Some existing"
  shows "\<exists>s' room R' ecl.
     handleWebSocket J socket (pre @ message # rest) s = (Returned (Some rest), s') \<and>
     map_of (Rooms (server s')) roomName = Some room \<and> roomAt s' room = Some R' \<and>
     map_of (Clients R') name = Some socket \<and>
     length (filter (\<lambda>e. fst e = name) (Clients R')) = 1 \<and>
     existing \<notin> snd ` set (Clients R') \<and>
     client_heap s existing = Some ecl \<and>
     client_heap s' existing = Some (ecl\<lparr>Socket := (Socket ecl)\<lparr>isClosed := True\<rparr>\<rparr>)"
proof -
  from handleWebSocket_join[OF assms(1-9), of rest]
  obtain room R s1 where
    run: "handleWebSocket J socket (pre @ message # rest) s =
       (Returned (Some rest), joined J socket (newClient\<lparr>Client.Name := name\<rparr>) name room R s1)"
    and reg: "map_of (Rooms (server s1)) roomName = Some room"
    and R: "roomAt s1 room = Some R"
    and before: "Clients R = members_before s roomName"
    and ok: "members_ok s1 R"
    and fresh: "socket \<notin> snd ` set (Clients R)"
    and same: "\<forall>a. a \<noteq> socket \<longrightarrow> client_heap s1 a = client_heap s a"
    by blast
  let ?s' = "joined J socket (newClient\<lparr>Client.Name := name\<rparr>) name room R s1"
  let ?D = "AList.delete name (Clients R)"
  let ?M = "AList.update name socket ?D"
  let ?R' = "R\<lparr>Clients := ?M\<rparr>"
  from assms(10) before have ex: "map_of (Clients R) name = Some existing" by simp
  then have exm: "(name, existing) \<in> set (Clients R)" by (rule map_of_SomeD)
  from ok have d: "distinct (map snd (Clients R))" by (simp add: members_ok_def)
  have M: "?M = ?D @ [(name, socket)]"
    by (rule update_absent) (simp add: delete_conv')
  have 2: "map_of (Rooms (server ?s')) roomName = Some room"
    using reg by (simp add: joined_server)
  have 3: "roomAt ?s' room = Some ?R'" using R by (rule joined_room)
  have 4: "map_of (Clients ?R') name = Some socket" by (simp add: update_conv')
  have "filter (\<lambda>e. fst e = name) ?D = []"
    by (auto simp: AList.delete_eq filter_empty_conv)
  then have 5: "length (filter (\<lambda>e. fst e = name) (Clients ?R')) = 1"
    by (simp add: M)
  have 6: "existing \<notin> snd ` set (Clients ?R')"
  proof
    assume "existing \<in> snd ` set (Clients ?R')"
    then obtain n where n: "(n, existing) \<in> set ?M" by auto
    from exm fresh have "existing \<noteq> socket" by force
    with n have "(n, existing) \<in> set (Clients R)" "n \<noteq> name"
      by (auto simp: entries_after_join)
    with distinct_snd_unique[OF d exm] show False by blast
  qed
  from joined_evicted[OF ok fresh ex, of J "newClient\<lparr>Client.Name := name\<rparr>" room]
  obtain ecl where ecl: "client_heap s1 existing = Some ecl" "client_heap ?s' existing = Some (closing ecl)"
    by blast
  from exm fresh have "existing \<noteq> socket" by force
  with same ecl(1) have 7: "client_heap s existing = Some ecl" by simp
  have 8: "client_heap ?s' existing = Some (ecl\<lparr>Socket := (Socket ecl)\<lparr>isClosed := True\<rparr>\<rparr>)"
    using ecl(2) by (simp add: closing_def)
  from run 2 3 4 5 6 7 8 show ?thesis by blast
qed

theorem same_name_join_evicts_existing_witness:
  "quiescent demo_state \<and> client_heap demo_state 4 = None \<and>
   Unmarshal demo_json join_A =
     Some (map_of [(''type'', JString ''join''), (''name'', JString ''A''), (''room'', JString ''lobby'')]) \<and>
   map_of (members_before demo_state ''lobby'') ''A'' = Some 1 \<and>
   (\<exists>s' room R'. handleWebSocket demo_json 4 [join_A] demo_state = (Returned (Some []), s') \<and>
      map_of (Rooms (server s')) ''lobby'' = Some room \<and> roomAt s' room = Some R' \<and>
      map_of (Clients R') ''A'' = Some 4 \<and> 1 \<notin> snd ` set (Clients R') \<and>
      client_heap s' 1 = Some (closing (demo_client ''A'' [])))"
proof -
  let ?d = "map_of [(''type'', JString ''join''), (''name'', JString ''A''), (''room'', JString ''lobby'')]"
  have h2: "client_heap demo_state 4 = None" by (simp add: demo_state_def)
  have h3: "\<forall>m \<in> set []. \<not> valid_join demo_json m" by simp
  have h4: "Unmarshal demo_json join_A = Some ?d" by simp
  have h5: "asString (?d ''type'') = ''join''" "asString (?d ''name'') = ''A''" "''A'' \<noteq> []"
    "asString (?d ''room'') = ''lobby''" "''lobby'' \<noteq> []"
    by (simp_all add: asString_def)
  have h6: "map_of (members_before demo_state ''lobby'') ''A'' = Some 1"
    by (simp add: members_before_demo)
  from same_name_join_evicts_existing[OF quiescent_demo h2 h3 h4 h5 h6, of "[]",
      unfolded append.simps]
  obtain s' room R' ecl where
    run: "handleWebSocket demo_json 4 [join_A] demo_state = (Returned (Some []), s')"
    and reg: "map_of (Rooms (server s')) ''lobby'' = Some room" "roomAt s' room = Some R'"
    and new: "map_of (Clients R') ''A'' = Some 4" "1 \<notin> snd ` set (Clients R')"
    and old: "client_heap demo_state 1 = Some ecl"
      "client_heap s' 1 = Some (ecl\<lparr>Socket := (Socket ecl)\<lparr>isClosed := True\<rparr>\<rparr>)"
    by blast
  from old have "client_heap s' 1 = Some (closing (demo_client ''A'' []))"
    by (simp add: demo_state_def closing_def)
  with quiescent_demo h2 h4 h6 run reg new show ?thesis by blast
qed

subsection \<open>The registry invariant\<close>

lemma same_registry_refl [simp]: "same_registry s s"
  by (simp add: same_registry_def)

lemma same_registry_trans: "same_registry s s' \<Longrightarrow> same_registry s' s'' \<Longrightarrow> same_registry s s''"
  by (simp add: same_registry_def)

lemma one_room_per_name_names:
  "one_room_per_name s \<longleftrightarrow>
     distinct (map Room.Name (room_heap s)) \<and>
     (\<forall>r < length (map Room.Name (room_heap s)).
        map_of (Rooms (server s)) (map Room.Name (room_heap s) ! r) = Some r) \<and>
     (\<forall>(n, r) \<in> set (Rooms (server s)).
        r < length (map Room.Name (room_heap s)) \<and> map Room.Name (room_heap s) ! r = n)"
  by (auto simp: one_room_per_name_def list_all_iff)

lemma same_registry_one_room:
  "same_registry s s' \<Longrightarrow> one_room_per_name s \<Longrightarrow> one_room_per_name s'"
  unfolding one_room_per_name_names by (simp add: same_registry_def)

lemma keeps_registry_imp: "keeps_registry m \<Longrightarrow> keeps_one_room_per_name m"
  by (auto simp: keeps_registry_def keeps_one_room_per_name_def intro: same_registry_one_room)

lemma keeps_registry_andThen:
  assumes "keeps_registry m" and "\<And>x. keeps_registry (f x)"
  shows "keeps_registry (andThen m f)"
  unfolding keeps_registry_def
proof
  fix s
  obtain out s1 where m: "m s = (out, s1)" by (cases "m s")
  from assms(1) m have 1: "same_registry s s1" by (auto simp: keeps_registry_def dest: spec[of _ s])
  show "same_registry s (snd (andThen m f s))"
  proof (cases out)
    case (Returned x)
    from assms(2)[of x] have "same_registry s1 (snd (f x s1))" by (simp add: keeps_registry_def)
    with 1 show ?thesis using m Returned by (auto simp: andThen_def intro: same_registry_trans)
  qed (use 1 m in \<open>simp_all add: andThen_def\<close>)
qed

lemma keeps_one_andThen:
  assumes "keeps_one_room_per_name m" and "\<And>x. keeps_one_room_per_name (f x)"
  shows "keeps_one_room_per_name (andThen m f)"
  unfolding keeps_one_room_per_name_def
proof (intro allI impI)
  fix s assume inv: "one_room_per_name s"
  obtain out s1 where m: "m s = (out, s1)" by (cases "m s")
  from assms(1) m inv have 1: "one_room_per_name s1"
    by (auto simp: keeps_one_room_per_name_def dest: spec[of _ s])
  show "one_room_per_name (snd (andThen m f s))"
  proof (cases out)
    case (Returned x)
    from assms(2)[of x] 1 have "one_room_per_name (snd (f x s1))"
      by (simp add: keeps_one_room_per_name_def)
    then show ?thesis using m Returned by (simp add: andThen_def)
  qed (use 1 m in \<open>simp_all add: andThen_def\<close>)
qed

lemma keeps_registry_deferring:
  assumes "keeps_registry d" and "keeps_registry body"
  shows "keeps_registry (deferring d body)"
  unfolding keeps_registry_def
proof
  fix s
  obtain out s1 where b: "body s = (out, s1)" by (cases "body s")
  obtain out2 s2 where d: "d s1 = (out2, s2)" by (cases "d s1")
  from assms(2) b have 1: "same_registry s s1" by (auto simp: keeps_registry_def dest: spec[of _ s])
  from assms(1) d have 2: "same_registry s1 s2" by (auto simp: keeps_registry_def dest: spec[of _ s1])
  from 1 2 have 3: "same_registry s s2" by (rule same_registry_trans)
  show "same_registry s (snd (deferring d body s))"
    using b d 1 3 by (cases out; cases out2) (simp_all add: deferring_def)
qed

lemma keeps_one_deferring:
  assumes "keeps_one_room_per_name d" and "keeps_one_room_per_name body"
  shows "keeps_one_room_per_name (deferring d body)"
  unfolding keeps_one_room_per_name_def
proof (intro allI impI)
  fix s assume inv: "one_room_per_name s"
  obtain out s1 where b: "body s = (out, s1)" by (cases "body s")
  obtain out2 s2 where d: "d s1 = (out2, s2)" by (cases "d s1")
  from assms(2) b inv have 1: "one_room_per_name s1"
    by (auto simp: keeps_one_room_per_name_def dest: spec[of _ s])
  from assms(1) d 1 have 2: "one_room_per_name s2"
    by (auto simp: keeps_one_room_per_name_def dest: spec[of _ s1])
  show "one_room_per_name (snd (deferring d body s))"
    using b d 1 2 by (cases out; cases out2) (simp_all add: deferring_def)
qed

lemma same_registry_setRoom:
  "roomAt s r = Some R \<Longrightarrow> Room.Name R' = Room.Name R \<Longrightarrow> same_registry s (setRoom r R' s)"
  by (auto simp: same_registry_def setRoom_def roomAt_def map_update list_update_same_conv
      split: if_splits)

lemma same_registry_heap [simp]: "same_registry s (s\<lparr>client_heap := h\<rparr>)"
  by (simp add: same_registry_def)

lemma keeps_prims:
  "keeps_registry (lockRoom r)" "keeps_registry (unlockRoom r)" "keeps_registry (getClients r)"
  "keeps_registry (modifyClients r f)" "keeps_registry (modifyClient c g)"
  "keeps_registry (trySend c m)" "keeps_registry (send c m)"
  "keeps_registry (closeSocket c)" "keeps_registry (closeSend c)"
  "keeps_registry (\<lambda>s. (out, s))"
  by (auto simp: keeps_registry_def lockRoom_def unlockRoom_def getClients_def modifyClients_def
      modifyClient_def trySend_def send_def closeSocket_def closeSend_def
      intro: same_registry_setRoom split: option.splits)

lemma keeps_sendEach: "keeps_registry (sendEach m ex members)"
proof (induction members)
  case Nil
  show ?case by (simp add: keeps_registry_def)
next
  case (Cons p members)
  obtain n c where p: "p = (n, c)" by (cases p)
  have "sendEach m ex ((n, c) # members) =
    (if n \<noteq> ex then andThen (trySend c m) (\<lambda>_. sendEach m ex members) else sendEach m ex members)"
    by (auto simp: fun_eq_iff andThen_def split: prod.splits outcome.splits)
  then show ?case
    using Cons.IH p by (simp add: keeps_registry_andThen keeps_prims)
qed

lemma keeps_Broadcast: "keeps_registry (Broadcast r m ex)"
  unfolding Broadcast_def
  by (intro keeps_registry_andThen keeps_registry_deferring keeps_prims keeps_sendEach)

lemma keeps_RemoveClient: "keeps_registry (RemoveClient J r n)"
  unfolding RemoveClient_def
  by (intro keeps_registry_andThen keeps_registry_deferring keeps_prims keeps_Broadcast)

lemma keeps_evictExisting: "keeps_registry (evictExisting room name)"
  unfolding evictExisting_def
  by (intro keeps_registry_andThen keeps_prims)
     (auto split: option.splits intro!: keeps_registry_andThen keeps_prims)

lemma keeps_enterRoom: "keeps_registry (enterRoom J c name room)"
  unfolding enterRoom_def
  by (intro keeps_registry_andThen keeps_prims keeps_evictExisting keeps_Broadcast)

lemma keeps_one_GetOrCreateRoom: "keeps_one_room_per_name (GetOrCreateRoom roomName)"
  unfolding keeps_one_room_per_name_def
proof (intro allI impI)
  fix s assume inv: "one_room_per_name s"
  show "one_room_per_name (snd (GetOrCreateRoom roomName s))"
  proof (cases "Server.Mutex (server s)")
    case True
    then show ?thesis using inv by (simp add: GetOrCreateRoom_def andThen_def lockServer_def)
  next
    case False
    show ?thesis
    proof (cases "map_of (Rooms (server s)) roomName")
      case None
      with False inv show ?thesis
        by (simp add: GetOrCreateRoom_new one_room_per_name_alloc)
    next
      case (Some r)
      with False inv show ?thesis by (simp add: GetOrCreateRoom_found)
    qed
  qed
qed

lemma keeps_one_handleJoin: "keeps_one_room_per_name (handleJoin J c name roomName)"
  unfolding handleJoin_def
  by (intro keeps_one_andThen keeps_one_GetOrCreateRoom keeps_registry_imp keeps_prims
      keeps_enterRoom)

lemma keeps_one_joinLoop: "keeps_one_room_per_name (joinLoop J c frames)"
proof (induction frames)
  case Nil
  have "joinLoop J c [] = andThen (closeSocket c) (\<lambda>_ s'. (Returned None, s'))"
    by (simp add: fun_eq_iff)
  then show ?case
    by (simp add: keeps_registry_imp keeps_registry_andThen keeps_prims)
next
  case (Cons m frames)
  have stop: "keeps_one_room_per_name (andThen (closeSocket c) (\<lambda>_ s'. (Returned None, s')))"
    by (simp add: keeps_registry_imp keeps_registry_andThen keeps_prims)
  have join: "keeps_one_room_per_name
      (andThen (handleJoin J c name roomName) (\<lambda>_ s'. (Returned (Some frames), s')))" for name roomName
    by (intro keeps_one_andThen keeps_one_handleJoin keeps_registry_imp keeps_prims)
  show ?case
    unfolding keeps_one_room_per_name_def
  proof (intro allI impI)
    fix s assume inv: "one_room_per_name s"
    from Cons.IH inv have IH: "one_room_per_name (snd (joinLoop J c frames s))"
      by (simp add: keeps_one_room_per_name_def)
    from stop inv have st: "one_room_per_name (snd (andThen (closeSocket c) (\<lambda>_ s'. (Returned None, s')) s))"
      unfolding keeps_one_room_per_name_def by blast
    from join inv have jn: "one_room_per_name
       (snd (andThen (handleJoin J c name roomName) (\<lambda>_ s'. (Returned (Some frames), s')) s))" for name roomName
      unfolding keeps_one_room_per_name_def by blast
    show "one_room_per_name (snd (joinLoop J c (m # frames) s))"
      using inv IH st jn by (auto simp: Let_def split: option.splits)
  qed
qed

lemma handleWebSocket_one_room_per_name:
  "one_room_per_name s \<Longrightarrow> one_room_per_name (snd (handleWebSocket J socket frames s))"
proof -
  assume "one_room_per_name s"
  then have "one_room_per_name (s\<lparr>client_heap := (client_heap s)(socket \<mapsto> newClient)\<rparr>)"
    by (rule same_registry_one_room[rotated]) simp
  with keeps_one_joinLoop[of J socket frames] show ?thesis
    by (simp add: handleWebSocket_def keeps_one_room_per_name_def)
qed

lemma keeps_forward: "keeps_registry (forward c target m)"
  unfolding keeps_registry_def
proof
  fix s
  have k: "keeps_registry (andThen (lockRoom room) (\<lambda>_.
               andThen (getClients room) (\<lambda>members.
               andThen (unlockRoom room) (\<lambda>_.
                 case map_of members target of
                   Some targetClient \<Rightarrow>
                     andThen (trySend targetClient m) (\<lambda>_ s'. (Returned (), s'))
                 | None \<Rightarrow> (\<lambda>s'. (Returned (), s'))))))" for room
    by (intro keeps_registry_andThen keeps_prims)
       (auto split: option.splits intro!: keeps_registry_andThen keeps_prims)
  show "same_registry s (snd (forward c target m s))"
    using k by (auto simp: forward_def keeps_registry_def split: option.splits)
qed

lemma keeps_readLoop: "keeps_registry (readLoop J c frames)"
proof (induction frames)
  case Nil
  show ?case by (simp add: keeps_registry_def)
next
  case (Cons m frames)
  have fw: "keeps_registry (andThen (forward c target m) (\<lambda>_. readLoop J c frames))" for target
    by (intro keeps_registry_andThen keeps_forward Cons.IH)
  have eq: "(case forward c target m s of
               (Returned _, s') \<Rightarrow> readLoop J c frames s'
             | (Blocked, s') \<Rightarrow> (Blocked, s')
             | (Panicked, s') \<Rightarrow> (Panicked, s')) =
            andThen (forward c target m) (\<lambda>_. readLoop J c frames) s" for target s
    by (simp add: andThen_def split: prod.splits outcome.splits)
  show ?case
    unfolding keeps_registry_def
  proof
    fix s
    from Cons.IH have IH: "same_registry s (snd (readLoop J c frames s))"
      by (simp add: keeps_registry_def)
    from fw have f: "same_registry s (snd (andThen (forward c target m) (\<lambda>_. readLoop J c frames) s))" for target
      by (simp add: keeps_registry_def)
    show "same_registry s (snd (readLoop J c (m # frames) s))"
      using IH f by (auto simp: Let_def eq split: option.splits)
  qed
qed

lemma keeps_cleanup: "keeps_registry (cleanup J c)"
  unfolding keeps_registry_def
proof
  fix s
  have k: "keeps_registry (andThen (RemoveClient J room n) (\<lambda>_.
               andThen (closeSocket c) (\<lambda>_. closeSend c)))" for room n
    by (intro keeps_registry_andThen keeps_prims keeps_RemoveClient)
  show "same_registry s (snd (cleanup J c s))"
    using k by (auto simp: cleanup_def keeps_registry_def split: option.splits)
qed

lemma readMessages_one_room_per_name:
  "one_room_per_name s \<Longrightarrow> one_room_per_name (snd (readMessages J c frames s))"
proof -
  have "keeps_registry (readMessages J c frames)"
    unfolding readMessages_def
    by (intro keeps_registry_deferring keeps_cleanup keeps_readLoop)
  then show "one_room_per_name s \<Longrightarrow> one_room_per_name (snd (readMessages J c frames s))"
    by (auto simp: keeps_registry_def intro: same_registry_one_room)
qed

text \<open>
  C9. Called with the registry lock free, \<open>GetOrCreateRoom\<close> returns, with the lock free
  again. When the name is registered it returns the registered Room and changes
  nothing; otherwise it allocates a Room of that name with an empty member map and no
  holder of its lock, registers it under the name and returns it. Either way, if there
  was one Room object per name before the call, there is one Room object per name after.
  The two tasks of a connection keep the property as well: whatever the peer sends and
  however they end, the state that the handshake \<open>handleWebSocket\<close> or the read loop
  \<open>readMessages\<close> leaves has one Room object per name if the state before had.
\<close>

theorem GetOrCreateRoom_registry:
  assumes "\<not> Server.Mutex (server s)"
  shows "\<exists>room s'. GetOrCreateRoom roomName s = (Returned room, s') \<and>
     (case map_of (Rooms (server s)) roomName of
        Some existing \<Rightarrow> room = existing \<and> s' = s
      | None \<Rightarrow>
          room = length (room_heap s) \<and>
          room_heap s' = room_heap s @ [\<lparr>Room.Name = roomName, Clients = [], Mutex = False\<rparr>] \<and>
          map_of (Rooms (server s')) = (map_of (Rooms (server s)))(roomName \<mapsto> room) \<and>
          \<not> Server.Mutex (server s') \<and> client_heap s' = client_heap s) \<and>
     (one_room_per_name s \<longrightarrow>
        one_room_per_name s' \<and>
        one_room_per_name (snd (handleWebSocket J socket frames s)) \<and>
        one_room_per_name (snd (readMessages J c frames s)))"
proof (cases "map_of (Rooms (server s)) roomName")
  case None
  show ?thesis
    using assms None one_room_per_name_alloc[OF _ None]
    by (simp add: GetOrCreateRoom_new update_conv' handleWebSocket_one_room_per_name
        readMessages_one_room_per_name)
next
  case (Some r)
  then show ?thesis
    using assms
    by (simp add: GetOrCreateRoom_found handleWebSocket_one_room_per_name
        readMessages_one_room_per_name)
qed

theorem GetOrCreateRoom_registry_witness:
  "\<not> Server.Mutex (server initial) \<and>
   (\<exists>s'. GetOrCreateRoom ''lobby'' initial = (Returned 0, s') \<and>
      room_heap s' = [\<lparr>Room.Name = ''lobby'', Clients = [], Mutex = False\<rparr>] \<and>
      one_room_per_name s' \<and>
      GetOrCreateRoom ''lobby'' s' = (Returned 0, s'))"
  using GetOrCreateRoom_registry[where s=initial and roomName="''lobby''" and J=demo_json
      and socket=0 and frames="[]" and c=0] one_room_per_name_initial
  by (auto simp: initial_def GetOrCreateRoom_found)

subsection \<open>A run from the initial state\<close>

text \<open>
  The definitions evaluated step by step. A joins and receives an empty user list; B joins,
  receives the user list with A, and A receives the new-user message for B; A sends an
  offer to B and B receives the very bytes; the connection of B ends and its read loop
  stays blocked in \<open>RemoveClient\<close>: the entry of B is gone, the lock of the room is held, and
  A has received no leave message.
\<close>

lemmas all_run_defs = handleWebSocket_def handleJoin_def enterRoom_def evictExisting_def
  GetOrCreateRoom_def lockServer_def unlockServer_def Broadcast_def RemoveClient_def newClient_def
  readMessages_def cleanup_def andThen_def deferring_def lockRoom_def unlockRoom_def
  getClients_def modifyClients_def modifyClient_def roomAt_def setRoom_def trySend_def send_def
  closeSocket_def asString_def forward_def Let_def

lemma demo_marshal [simp]:
  "Marshal demo_json fs = concat (map (\<lambda>(k, v). k @ ''='' @ demo_show v @ '';'') fs)"
  by (simp add: demo_json_def)

lemma scene_A_joins: "handleWebSocket demo_json 1 [join_A] initial = (Returned (Some []), scene_1)"
  by (simp add: all_run_defs initial_def scene_1_def demo_client_def)

lemma scene_B_joins: "handleWebSocket demo_json 2 [join_B] scene_1 = (Returned (Some []), scene_2)"
  by (simp add: all_run_defs scene_1_def scene_2_def demo_client_def fun_upd_twist)

lemma scene_A_offers: "readLoop demo_json 1 [offer_to_B] scene_2 = (Returned (), scene_3)"
  by (simp add: all_run_defs scene_2_def scene_3_def demo_client_def)

lemma scene_B_disconnects: "readMessages demo_json 2 [] scene_3 = (Blocked, scene_4)"
  by (simp add: all_run_defs scene_3_def scene_4_def demo_client_def AList.delete_eq)

end
